theory Spec2Isabelle
  imports Complex_Main
begin

section \<open>Gauss-Hermite expansion engine (math\_gausshermite.cpp)\<close>

text \<open>
  Conventions of the embedding.
  \<^item> A \<^verbatim>\<open>double\<close> is a \<^typ>\<open>real\<close>, and the arithmetic is exact unless said otherwise.
    Where the source's own guards are about non-finite values (the moment estimator, the
    finiteness test of the constructor) the operation that would leave the reals is made
    explicit. Where a claim depends on two doubles being equal (the samples of the direct
    integrator) the loop is given a second time with the rounding of the arguments handed
    to the function.
  \<^item> A raw \<^verbatim>\<open>double*\<close> is a buffer \<^typ>\<open>nat \<Rightarrow> real\<close> (the cells that follow the
    pointer); a write is a function update. A \<^verbatim>\<open>std::vector<double>\<close> is a list.
  \<^item> \<^verbatim>\<open>unsigned int order\<close> is a \<^typ>\<open>nat\<close> (the source never reaches the wrap-around of
    \<^verbatim>\<open>order+1\<close>); the \<^verbatim>\<open>int nmax\<close> of \<^verbatim>\<open>hermiteArray\<close> is an \<^typ>\<open>int\<close>, because its
    guard compares a signed value.
  \<^item> Loops are recursive functions over the loop counter.
\<close>

subsection \<open>Constants\<close>

type_synonym buffer = "nat \<Rightarrow> real"

definition M_SQRT2 :: real where
  "M_SQRT2 = sqrt 2"

definition M_SQRTPI :: real where
  "M_SQRTPI = sqrt pi"

definition QUADORDER :: int where
  "QUADORDER = 7"

definition pow_2 :: "'a::times \<Rightarrow> 'a" where
  "pow_2 x = x * x"

subsection \<open>Rounding\<close>

text \<open>
  Rounding to the nearest integer, ties to even, and rounding of a real to the nearest
  binary64 number (53 significant bits). The exponent range of \<open>fl64\<close> is not bounded;
  \<open>DBL_MAX\<close> is the largest finite double, beyond which a rounded result is an infinity.
\<close>

definition rne :: "real \<Rightarrow> int" where
  "rne r =
     (let f = \<lfloor>r\<rfloor>; d = r - of_int f
      in if d < 1 / 2 then f else if 1 / 2 < d then f + 1 else if even f then f else f + 1)"

definition fl64 :: "real \<Rightarrow> real" where
  "fl64 x =
     (if x = 0 then 0
      else (let u = 2 powr (of_int \<lfloor>log 2 \<bar>x\<bar>\<rfloor> - 52) in u * of_int (rne (x / u))))"

definition DBL_MAX :: real where
  "DBL_MAX = 2 ^ 1024 - 2 ^ 971"

subsection \<open>hermiteArray\<close>

definition sqroots :: "real list" where
  "sqroots = [1, sqrt 2, sqrt 3, 2, sqrt 5, sqrt 6, sqrt 7, sqrt 8]"

text \<open>The loop \<^verbatim>\<open>for(int n=1; n<nmax; n++)\<close> with its carried variable \<^verbatim>\<open>sqrtn\<close>.\<close>

function hermiteLoop :: "int \<Rightarrow> real \<Rightarrow> int \<Rightarrow> real \<Rightarrow> buffer \<Rightarrow> buffer" where
  "hermiteLoop nmax x n sqrtn result =
     (if n < nmax then
        (let sqrtnplus1 = (if n < 8 then sqroots ! nat n else sqrt (of_int n + 1));
             result' = result(nat (n + 1) :=
                         (M_SQRT2 * x * result (nat n) - sqrtn * result (nat (n - 1))) / sqrtnplus1)
         in hermiteLoop nmax x (n + 1) sqrtnplus1 result')
      else result)"
  by pat_completeness auto
termination
  by (relation "measure (\<lambda>(nmax, x, n, sqrtn, result). nat (nmax - n))") auto

definition hermiteArray :: "int \<Rightarrow> real \<Rightarrow> buffer \<Rightarrow> buffer" where
  "hermiteArray nmax x result =
     (if nmax < 1 then result
      else
        (let result1 = result(0 := 1);
             result2 = (if nmax \<ge> 1 then result1(1 := M_SQRT2 * x) else result1)
         in hermiteLoop nmax x 1 1 result2))"

text \<open>
  The recurrence of the specification, as a function of the degree: the second,
  independent definition that \<open>hermiteArray\<close> is compared with.
\<close>

fun hermite_spec :: "real \<Rightarrow> nat \<Rightarrow> real" where
  "hermite_spec x 0 = 1"
| "hermite_spec x (Suc 0) = sqrt 2 * x"
| "hermite_spec x (Suc (Suc n)) =
     (sqrt 2 * x * hermite_spec x (Suc n) - sqrt (real (Suc n)) * hermite_spec x n)
       / sqrt (real (Suc (Suc n)))"

subsection \<open>Moment estimator\<close>

definition EPSREL_MOMENTS :: real where
  "EPSREL_MOMENTS = 1 / 1000"

text \<open>
  The two operations of the estimator that leave the reals on finite arguments: IEEE
  division by zero gives an infinity or a NaN, the square root of a negative number a NaN.
  Both are \<open>None\<close> here, so that a path of the code that performs one is visible.
\<close>

definition checked_div :: "real \<Rightarrow> real \<Rightarrow> real option" where
  "checked_div a b = (if b = 0 then None else Some (a / b))"

definition checked_sqrt :: "real \<Rightarrow> real option" where
  "checked_sqrt a = (if a < 0 then None else Some (sqrt a))"

definition fmax :: "real \<Rightarrow> real \<Rightarrow> real" where
  "fmax a b = (if a < b then b else a)"

text \<open>
  \<^verbatim>\<open>MomentsIntegrand::eval\<close>. For \<open>z\<close> other than 0 and 1 every quotient is a real number;
  the guard \<^verbatim>\<open>j==INFINITY\<close> holds when \<open>j\<close> is beyond the largest double. At \<open>z = 1\<close> the
  code has \<open>x = j = +\<infinity>\<close> and the guard gives zeros. At \<open>z = 0\<close> it has \<open>x = 0\<close> and
  \<open>j = 0 * \<infinity>\<close>, a NaN: zeros when the function vanishes at 0, and otherwise NaN values,
  which are \<open>None\<close> here. (An overflow of \<^verbatim>\<open>1/pow_2(z)\<close> for \<open>z\<close> below \<open>10^-154\<close> is not
  modelled.)
\<close>

definition MomentsIntegrand_eval :: "(real \<Rightarrow> real) \<Rightarrow> real \<Rightarrow> (real \<times> real \<times> real) option" where
  "MomentsIntegrand_eval fnc z =
     (if z = 1 then Some (0, 0, 0)
      else if z = 0 then (if fnc 0 = 0 then Some (0, 0, 0) else None)
      else
        (let x = exp (1 / (1 - z) - 1 / z);
             j = x * (1 / pow_2 (1 - z) + 1 / pow_2 z);
             fp = fnc x;
             fm = fnc (- x)
         in if (fp = 0 \<and> fm = 0) \<or> DBL_MAX < j then Some (0, 0, 0)
            else Some ((fp + fm) * j, (fp - fm) * j * x, (fp + fm) * j * x * x)))"

text \<open>
  \<^verbatim>\<open>math::integrateNdim\<close> is an external collaborator: integrand, lower and upper bound,
  relative tolerance, evaluation budget; it fills \<^verbatim>\<open>double result[3]\<close>.
\<close>

type_synonym integrator =
  "(real \<Rightarrow> (real \<times> real \<times> real) option) \<Rightarrow> real \<Rightarrow> real \<Rightarrow> real \<Rightarrow> nat \<Rightarrow> real \<times> real \<times> real"

definition computeClassicMoments :: "integrator \<Rightarrow> (real \<Rightarrow> real) \<Rightarrow> real list option" where
  "computeClassicMoments integrateNdim fnc =
     (case integrateNdim (MomentsIntegrand_eval fnc) 0 1 EPSREL_MOMENTS 1000 of
        (result0, result1, result2) \<Rightarrow>
          (case (if result0 \<noteq> 0 then checked_div result1 result0 else Some 0) of
             None \<Rightarrow> None
           | Some moments1 \<Rightarrow>
               (case (if result0 \<noteq> 0
                      then (case checked_div result2 result0 of
                              None \<Rightarrow> None
                            | Some q \<Rightarrow> checked_sqrt (fmax 0 (q - pow_2 moments1)))
                      else Some 0) of
                  None \<Rightarrow> None
                | Some moments2 \<Rightarrow> Some [result0, moments1, moments2])))"

subsection \<open>Direct integration of the coefficients\<close>

text \<open>The inner loop \<^verbatim>\<open>for(unsigned int i=0; i<=order; i++) result[i] += ...\<close>.\<close>

function momentsInner ::
  "nat \<Rightarrow> real \<Rightarrow> real \<Rightarrow> real \<Rightarrow> buffer \<Rightarrow> nat \<Rightarrow> real list \<Rightarrow> real list" where
  "momentsInner order mult fp fm hpoly i result =
     (if i \<le> order then
        momentsInner order mult fp fm hpoly (i + 1)
          (result[i := result ! i + mult * (fp + (if i mod 2 \<noteq> 0 then - 1 else 1) * fm) * hpoly i])
      else result)"
  by pat_completeness auto
termination
  by (relation "measure (\<lambda>(order, mult, fp, fm, hpoly, i, result). Suc order - i)") auto

text \<open>The outer loop \<^verbatim>\<open>for(int p=0; p<=pow_2(QUADORDER); p++)\<close>; \<open>hpoly\<close> is the same
  vector in every round.\<close>

function momentsOuter ::
  "(real \<Rightarrow> real) \<Rightarrow> nat \<Rightarrow> real \<Rightarrow> real \<Rightarrow> real \<Rightarrow> int \<Rightarrow> buffer \<Rightarrow> real list \<Rightarrow> real list" where
  "momentsOuter fnc order ampl center width p hpoly result =
     (if p \<le> pow_2 QUADORDER then
        (let y = of_int p * (1 / of_int QUADORDER);
             mult = M_SQRT2 * width / ampl / of_int QUADORDER * exp (- 0.5 * y * y);
             fp = fnc (center + width * y);
             fm = (if p = 0 then 0 else fnc (center - width * y));
             hpoly' = hermiteArray (int order) y hpoly;
             result' = momentsInner order mult fp fm hpoly' 0 result
         in momentsOuter fnc order ampl center width (p + 1) hpoly' result')
      else result)"
  by pat_completeness auto
termination
  by (relation "measure (\<lambda>(fnc, order, ampl, center, width, p, hpoly, result).
                  nat (pow_2 QUADORDER + 1 - p))") auto

definition computeGaussHermiteMoments ::
  "(real \<Rightarrow> real) \<Rightarrow> nat \<Rightarrow> real \<Rightarrow> real \<Rightarrow> real \<Rightarrow> real list" where
  "computeGaussHermiteMoments fnc order ampl center width =
     momentsOuter fnc order ampl center width 0 (\<lambda>i. 0) (replicate (order + 1) 0)"

text \<open>
  The accumulation rule in the words of the specification: the symmetric combination for
  an even index and the antisymmetric one for an odd index, at every node \<open>y = p/7\<close>,
  \<open>p = 0..49\<close>. It is compared with \<open>computeGaussHermiteMoments\<close> below.
\<close>

definition claimed_coefficient ::
  "(real \<Rightarrow> real) \<Rightarrow> real \<Rightarrow> real \<Rightarrow> real \<Rightarrow> nat \<Rightarrow> real" where
  "claimed_coefficient f ampl center width i =
     (\<Sum>p = 0..49::int.
        sqrt 2 * width / ampl / 7 * exp (- 0.5 * (of_int p / 7) * (of_int p / 7))
        * (if even i
           then f (center + width * (of_int p / 7)) + f (center - width * (of_int p / 7))
           else f (center + width * (of_int p / 7)) - f (center - width * (of_int p / 7)))
        * hermite_spec (of_int p / 7) i)"

text \<open>
  What the code accumulates: the term that the node \<open>y = p/7\<close> adds to the coefficient of
  index \<open>k\<close>; the mirrored sample is taken as 0 at the central node.
\<close>

definition node_term :: "(real \<Rightarrow> real) \<Rightarrow> real \<Rightarrow> real \<Rightarrow> real \<Rightarrow> int \<Rightarrow> nat \<Rightarrow> real" where
  "node_term f ampl center width p k =
     sqrt 2 * width / ampl / 7 * exp (- 0.5 * (of_int p / 7) * (of_int p / 7))
     * (f (center + width * (of_int p / 7))
        + (if even k then 1 else - 1) * (if p = 0 then 0 else f (center - width * (of_int p / 7))))
     * hermite_spec (of_int p / 7) k"

text \<open>
  The same loop with the rounding that decides which doubles the function is sampled at:
  \<open>fl\<close> rounds the node \<^verbatim>\<open>y = p * (1./QUADORDER)\<close> and the two arguments
  \<^verbatim>\<open>center + width * y\<close> and \<^verbatim>\<open>center - width * y\<close>, each on its own. The function is
  arbitrary and may tell two neighbouring doubles apart; the remaining arithmetic (the
  weight, the Hermite values, the accumulation) stays exact. With \<open>fl\<close> the identity this
  is \<open>momentsOuter\<close>.
\<close>

function momentsOuter_fl ::
  "(real \<Rightarrow> real) \<Rightarrow> (real \<Rightarrow> real) \<Rightarrow> nat \<Rightarrow> real \<Rightarrow> real \<Rightarrow> real \<Rightarrow> int \<Rightarrow> buffer
     \<Rightarrow> real list \<Rightarrow> real list" where
  "momentsOuter_fl fl fnc order ampl center width p hpoly result =
     (if p \<le> pow_2 QUADORDER then
        (let y = fl (of_int p * fl (1 / of_int QUADORDER));
             mult = M_SQRT2 * width / ampl / of_int QUADORDER * exp (- 0.5 * y * y);
             fp = fnc (fl (center + fl (width * y)));
             fm = (if p = 0 then 0 else fnc (fl (center - fl (width * y))));
             hpoly' = hermiteArray (int order) y hpoly;
             result' = momentsInner order mult fp fm hpoly' 0 result
         in momentsOuter_fl fl fnc order ampl center width (p + 1) hpoly' result')
      else result)"
  by pat_completeness auto
termination
  by (relation "measure (\<lambda>(fl, fnc, order, ampl, center, width, p, hpoly, result).
                  nat (pow_2 QUADORDER + 1 - p))") auto

definition computeGaussHermiteMoments_fl ::
  "(real \<Rightarrow> real) \<Rightarrow> (real \<Rightarrow> real) \<Rightarrow> nat \<Rightarrow> real \<Rightarrow> real \<Rightarrow> real \<Rightarrow> real list" where
  "computeGaussHermiteMoments_fl fl fnc order ampl center width =
     momentsOuter_fl fl fnc order ampl center width 0 (\<lambda>i. 0) (replicate (order + 1) 0)"

text \<open>The node and the two arguments of the function at the node \<open>p\<close>.\<close>

definition node_y :: "(real \<Rightarrow> real) \<Rightarrow> int \<Rightarrow> real" where
  "node_y fl p = fl (of_int p * fl (1 / of_int QUADORDER))"

definition sample_plus :: "(real \<Rightarrow> real) \<Rightarrow> real \<Rightarrow> real \<Rightarrow> int \<Rightarrow> real" where
  "sample_plus fl center width p = fl (center + fl (width * node_y fl p))"

definition sample_minus :: "(real \<Rightarrow> real) \<Rightarrow> real \<Rightarrow> real \<Rightarrow> int \<Rightarrow> real" where
  "sample_minus fl center width p = fl (center - fl (width * node_y fl p))"

text \<open>The term that the node \<open>p\<close> adds to the coefficient of index \<open>k\<close> in that loop.\<close>

definition node_term_fl ::
  "(real \<Rightarrow> real) \<Rightarrow> (real \<Rightarrow> real) \<Rightarrow> real \<Rightarrow> real \<Rightarrow> real \<Rightarrow> int \<Rightarrow> nat \<Rightarrow> real" where
  "node_term_fl fl f ampl center width p k =
     sqrt 2 * width / ampl / 7 * exp (- 0.5 * node_y fl p * node_y fl p)
     * (f (sample_plus fl center width p)
        + (if even k then 1 else - 1) * (if p = 0 then 0 else f (sample_minus fl center width p)))
     * hermite_spec (node_y fl p) k"

subsection \<open>The expansion object\<close>

record GaussHermiteExpansion =
  Ampl :: real
  Center :: real
  Width :: real
  moments :: "real list"

text \<open>\<^verbatim>\<open>for(unsigned int i=0; i<ncoefs; i++) result += moments[i] * hpoly[i]\<close>\<close>

function valueLoop :: "real list \<Rightarrow> buffer \<Rightarrow> nat \<Rightarrow> real \<Rightarrow> real" where
  "valueLoop ms hpoly i result =
     (if i < length ms then valueLoop ms hpoly (i + 1) (result + ms ! i * hpoly i) else result)"
  by pat_completeness auto
termination
  by (relation "measure (\<lambda>(ms, hpoly, i, result). length ms - i)") auto

text \<open>
  \<^verbatim>\<open>GaussHermiteExpansion::value\<close>. The scratch array comes from \<^verbatim>\<open>alloca\<close> and is not
  initialised: its contents on entry are the argument \<open>stack\<close>.
\<close>

definition GaussHermiteExpansion_value :: "GaussHermiteExpansion \<Rightarrow> buffer \<Rightarrow> real \<Rightarrow> real" where
  "GaussHermiteExpansion_value e stack x =
     (let ncoefs = length (moments e) in
      if ncoefs = 0 then 0
      else
        (let xscaled = (x - Center e) / Width e;
             norm = (1 / M_SQRT2 / M_SQRTPI) * Ampl e / Width e * exp (- 0.5 * pow_2 xscaled);
             hpoly = hermiteArray (int ncoefs - 1) xscaled stack;
             result = valueLoop (moments e) hpoly 0 0
         in result * norm))"

text \<open>Modelled from the spec: \<^verbatim>\<open>math::factorial\<close> and \<^verbatim>\<open>math::dfactorial\<close> (math\_specfunc)
  are not among the sources; they are \<open>n!\<close> and \<open>n!!\<close>.\<close>

definition factorial :: "nat \<Rightarrow> real" where
  "factorial n = fact n"

fun dfactorial :: "nat \<Rightarrow> real" where
  "dfactorial 0 = 1"
| "dfactorial (Suc 0) = 1"
| "dfactorial (Suc (Suc n)) = real (Suc (Suc n)) * dfactorial n"

definition normn :: "nat \<Rightarrow> real" where
  "normn n =
     (if n mod 2 = 1 then 0
      else if n = 0 then 1
      else if n = 2 then 1 / M_SQRT2
      else if n = 4 then 0.6123724356957945
      else if n = 6 then 0.5590169943749474
      else if n = 8 then 0.5229125165837972
      else sqrt (factorial n) / dfactorial n)"

text \<open>\<^verbatim>\<open>for(size_t n=0; n<moments.size(); n+=2) result += moments[n] * normn(n)\<close>\<close>

function normLoop :: "real list \<Rightarrow> nat \<Rightarrow> real \<Rightarrow> real" where
  "normLoop ms n result =
     (if n < length ms then normLoop ms (n + 2) (result + ms ! n * normn n) else result)"
  by pat_completeness auto
termination
  by (relation "measure (\<lambda>(ms, n, result). length ms - n)") auto

definition GaussHermiteExpansion_norm :: "GaussHermiteExpansion \<Rightarrow> real" where
  "GaussHermiteExpansion_norm e = normLoop (moments e) 0 0 * Ampl e"

subsection \<open>The model fitted by Levenberg-Marquardt\<close>

text \<open>\<^verbatim>\<open>for(unsigned int n=3; n<=order; n++) sum += vars[n] * hpoly[n]\<close>\<close>

function fitterSum :: "nat \<Rightarrow> buffer \<Rightarrow> buffer \<Rightarrow> nat \<Rightarrow> real \<Rightarrow> real" where
  "fitterSum order vars hpoly n sumh =
     (if n \<le> order then fitterSum order vars hpoly (n + 1) (sumh + vars n * hpoly n) else sumh)"
  by pat_completeness auto
termination
  by (relation "measure (\<lambda>(order, vars, hpoly, n, sumh). Suc order - n)") auto

text \<open>\<^verbatim>\<open>for(unsigned int n=3; n<=order; n++) derivs[p*(order+1)+n] = -mult * ampl / sum * hpoly[n]\<close>\<close>

function fitterDerivs ::
  "nat \<Rightarrow> buffer \<Rightarrow> real \<Rightarrow> real \<Rightarrow> real \<Rightarrow> nat \<Rightarrow> nat \<Rightarrow> buffer \<Rightarrow> buffer" where
  "fitterDerivs order hpoly mult ampl sumh p n derivs =
     (if n \<le> order then
        fitterDerivs order hpoly mult ampl sumh p (n + 1)
          (derivs(p * (order + 1) + n := - mult * ampl / sumh * hpoly n))
      else derivs)"
  by pat_completeness auto
termination
  by (relation "measure (\<lambda>(order, hpoly, mult, ampl, sumh, p, n, derivs). Suc order - n)") auto

text \<open>
  \<^verbatim>\<open>GaussHermiteFitter::evalDeriv\<close>: the loop over the nodes. The output pointers
  \<^verbatim>\<open>values\<close> and \<^verbatim>\<open>derivs\<close> may be null (\<open>None\<close>).
\<close>

function evalDerivLoop ::
  "nat \<Rightarrow> (real \<Rightarrow> real) \<Rightarrow> buffer \<Rightarrow> int \<Rightarrow> buffer \<Rightarrow> buffer option \<Rightarrow> buffer option
     \<Rightarrow> buffer option \<times> buffer option" where
  "evalDerivLoop order fnc vars p hpoly values derivs =
     (if p \<le> 2 * pow_2 QUADORDER then
        (let ampl = vars 0; center = vars 1; width = vars 2; sqwidth = sqrt width;
             y = (1 / of_int QUADORDER) * of_int (p - pow_2 QUADORDER);
             x = center + width * y;
             hpoly' = hermiteArray (int order) y hpoly;
             sumh = fitterSum order vars hpoly' 3 1;
             mult = 1 / M_SQRT2 / M_SQRTPI * exp (- 0.5 * y * y) * sumh / sqwidth;
             values' = (case values of
                          None \<Rightarrow> None
                        | Some v \<Rightarrow> Some (v(nat p := sqwidth * fnc x - mult * ampl)));
             derivs' = (case derivs of
                          None \<Rightarrow> None
                        | Some d \<Rightarrow>
                            Some (fitterDerivs order hpoly' mult ampl sumh (nat p) 3
                              (d(nat p * (order + 1) := - mult,
                                 nat p * (order + 1) + 1 := - mult * ampl / width * y,
                                 nat p * (order + 1) + 2 := mult * ampl / width * (1 - y * y)))))
         in evalDerivLoop order fnc vars (p + 1) hpoly' values' derivs')
      else (values, derivs))"
  by pat_completeness auto
termination
  by (relation "measure (\<lambda>(order, fnc, vars, p, hpoly, values, derivs).
                  nat (2 * pow_2 QUADORDER + 1 - p))") auto

definition evalDeriv ::
  "nat \<Rightarrow> (real \<Rightarrow> real) \<Rightarrow> buffer \<Rightarrow> buffer option \<Rightarrow> buffer option
     \<Rightarrow> buffer option \<times> buffer option" where
  "evalDeriv order fnc vars values derivs =
     evalDerivLoop order fnc vars 0 (\<lambda>i. 0) values derivs"

definition GaussHermiteFitter_numVars :: "nat \<Rightarrow> nat" where
  "GaussHermiteFitter_numVars order = order + 1"

definition GaussHermiteFitter_numValues :: nat where
  "GaussHermiteFitter_numValues = nat (2 * pow_2 QUADORDER + 1)"

text \<open>The residuals as a caller reads them: the cells of \<^verbatim>\<open>values\<close> after the call.\<close>

definition residuals :: "nat \<Rightarrow> (real \<Rightarrow> real) \<Rightarrow> buffer \<Rightarrow> buffer \<Rightarrow> buffer" where
  "residuals order fnc vars values0 =
     (case fst (evalDeriv order fnc vars (Some values0) None) of
        None \<Rightarrow> values0
      | Some v \<Rightarrow> v)"

text \<open>
  The expansion that the free parameters stand for: the envelope from \<open>vars\<close> 0..2, the
  coefficients \<open>h_0 = 1\<close>, \<open>h_1 = h_2 = 0\<close> fixed and \<open>h_3..h_order\<close> from \<open>vars\<close>.
\<close>

definition fitted_expansion :: "nat \<Rightarrow> buffer \<Rightarrow> GaussHermiteExpansion" where
  "fitted_expansion order vars =
     \<lparr>Ampl = vars 0, Center = vars 1, Width = vars 2,
      moments = map (\<lambda>n. if n = 0 then 1 else if n < 3 then 0 else vars n) [0..<order + 1]\<rparr>"

text \<open>The node \<open>x_k\<close> of the fitter, \<open>k = 0..98\<close>.\<close>

definition fitter_node :: "buffer \<Rightarrow> nat \<Rightarrow> real" where
  "fitter_node vars k = vars 1 + vars 2 * ((real k - 49) / 7)"

text \<open>
  The residual in the words of the specification: \<open>sqrt width * f x_k\<close> minus the value of
  the reconstructed expansion at \<open>x_k\<close>.
\<close>

definition claimed_residual :: "nat \<Rightarrow> (real \<Rightarrow> real) \<Rightarrow> buffer \<Rightarrow> nat \<Rightarrow> real" where
  "claimed_residual order fnc vars k =
     sqrt (vars 2) * fnc (fitter_node vars k)
     - GaussHermiteExpansion_value (fitted_expansion order vars) (\<lambda>i. 0) (fitter_node vars k)"

text \<open>
  What the code computes at the node \<open>k\<close>: the sum of the shape terms (\<open>h_0 = 1\<close>,
  \<open>h_3..h_order\<close> from \<open>vars\<close>) and the residual.
\<close>

definition fitter_sum :: "nat \<Rightarrow> buffer \<Rightarrow> real \<Rightarrow> real" where
  "fitter_sum order vars y = 1 + (\<Sum>j = 3..order. vars j * hermite_spec y j)"

definition fitter_residual :: "nat \<Rightarrow> (real \<Rightarrow> real) \<Rightarrow> buffer \<Rightarrow> nat \<Rightarrow> real" where
  "fitter_residual order fnc vars k =
     sqrt (vars 2) * fnc (fitter_node vars k)
     - 1 / sqrt 2 / sqrt pi * exp (- 0.5 * ((real k - 49) / 7) * ((real k - 49) / 7))
       * fitter_sum order vars ((real k - 49) / 7) / sqrt (vars 2) * vars 0"

subsection \<open>Matrix of the coefficients of a B-spline basis\<close>

datatype error = InvalidArgument string | NonFinite

text \<open>
  \<^verbatim>\<open>math::BsplineInterpolator1d<N>\<close> is an external collaborator, used through its grid, its
  number of basis functions and its query for the non-zero functions at a point, which
  returns the index of the leftmost one and fills \<^verbatim>\<open>bspl[0..N]\<close>.
\<close>

record BsplineInterpolator1d =
  xvalues :: "real list"
  numValues :: nat
  nonzeroComponents :: "real \<Rightarrow> nat \<Rightarrow> nat \<times> buffer"

text \<open>The Gauss-Legendre tables of math\_core, indexed by the number of nodes.\<close>

record GLTables =
  MAX_GL_TABLE :: int
  GLPOINTS :: "nat \<Rightarrow> buffer"
  GLWEIGHTS :: "nat \<Rightarrow> buffer"

record Matrix =
  rows :: nat
  cols :: nat
  data :: buffer

text \<open>\<^verbatim>\<open>for(int b=0; b<=N; b++) dresult[m * numBsplines + b + leftInd] += mult * hpoly[m] * bspl[b]\<close>\<close>

function matrixLoopB ::
  "int \<Rightarrow> nat \<Rightarrow> real \<Rightarrow> buffer \<Rightarrow> buffer \<Rightarrow> nat \<Rightarrow> nat \<Rightarrow> int \<Rightarrow> buffer \<Rightarrow> buffer" where
  "matrixLoopB N numBsplines mult hpoly bspl leftInd m b dresult =
     (if b \<le> N then
        matrixLoopB N numBsplines mult hpoly bspl leftInd m (b + 1)
          (dresult(m * numBsplines + nat b + leftInd :=
             dresult (m * numBsplines + nat b + leftInd) + mult * hpoly m * bspl (nat b)))
      else dresult)"
  by pat_completeness auto
termination
  by (relation "measure (\<lambda>(N, numBsplines, mult, hpoly, bspl, leftInd, m, b, dresult).
                  nat (N + 1 - b))") auto

text \<open>\<^verbatim>\<open>for(unsigned int m=0; m<=order; m++)\<close>\<close>

function matrixLoopM ::
  "int \<Rightarrow> nat \<Rightarrow> nat \<Rightarrow> real \<Rightarrow> buffer \<Rightarrow> buffer \<Rightarrow> nat \<Rightarrow> nat \<Rightarrow> buffer \<Rightarrow> buffer" where
  "matrixLoopM N order numBsplines mult hpoly bspl leftInd m dresult =
     (if m \<le> order then
        matrixLoopM N order numBsplines mult hpoly bspl leftInd (m + 1)
          (matrixLoopB N numBsplines mult hpoly bspl leftInd m 0 dresult)
      else dresult)"
  by pat_completeness auto
termination
  by (relation "measure (\<lambda>(N, order, numBsplines, mult, hpoly, bspl, leftInd, m, dresult).
                  Suc order - m)") auto

text \<open>\<^verbatim>\<open>for(int k=0; k<NnodesGL; k++)\<close>, on the segment from \<open>x1\<close> of length \<open>dx\<close>.\<close>

function matrixLoopK ::
  "int \<Rightarrow> BsplineInterpolator1d \<Rightarrow> nat \<Rightarrow> real \<Rightarrow> real \<Rightarrow> real \<Rightarrow> buffer \<Rightarrow> buffer \<Rightarrow> int
     \<Rightarrow> real \<Rightarrow> real \<Rightarrow> int \<Rightarrow> buffer \<Rightarrow> buffer \<Rightarrow> buffer \<times> buffer" where
  "matrixLoopK N interp order ampl center width glnodes glweights NnodesGL x1 dx k hpoly dresult =
     (if k < NnodesGL then
        (let x = x1 + dx * glnodes (nat k);
             (leftInd, bspl) = nonzeroComponents interp x 0;
             y = (x - center) / width;
             hpoly' = hermiteArray (int order) y hpoly;
             mult = M_SQRT2 / ampl * dx * glweights (nat k) * exp (- 0.5 * y * y)
         in matrixLoopK N interp order ampl center width glnodes glweights NnodesGL x1 dx (k + 1)
              hpoly' (matrixLoopM N order (numValues interp) mult hpoly' bspl leftInd 0 dresult))
      else (hpoly, dresult))"
  by pat_completeness auto
termination
  by (relation "measure (\<lambda>(N, interp, order, ampl, center, width, glnodes, glweights, NnodesGL,
                  x1, dx, k, hpoly, dresult). nat (NnodesGL - k))") auto

text \<open>\<^verbatim>\<open>for(int n=0; n<gridSize-1; n++)\<close>\<close>

function matrixLoopN ::
  "int \<Rightarrow> BsplineInterpolator1d \<Rightarrow> nat \<Rightarrow> real \<Rightarrow> real \<Rightarrow> real \<Rightarrow> buffer \<Rightarrow> buffer \<Rightarrow> int
     \<Rightarrow> int \<Rightarrow> int \<Rightarrow> buffer \<Rightarrow> buffer \<Rightarrow> buffer" where
  "matrixLoopN N interp order ampl center width glnodes glweights NnodesGL gridSize n hpoly dresult =
     (if n < gridSize - 1 then
        (let x1 = xvalues interp ! nat n;
             x2 = xvalues interp ! nat (n + 1);
             dx = x2 - x1;
             (hpoly', dresult') =
               matrixLoopK N interp order ampl center width glnodes glweights NnodesGL x1 dx 0
                 hpoly dresult
         in matrixLoopN N interp order ampl center width glnodes glweights NnodesGL gridSize (n + 1)
              hpoly' dresult')
      else dresult)"
  by pat_completeness auto
termination
  by (relation "measure (\<lambda>(N, interp, order, ampl, center, width, glnodes, glweights, NnodesGL,
                  gridSize, n, hpoly, dresult). nat (gridSize - 1 - n))") auto

text \<open>The builder for one degree \<open>N\<close> (the template of the source).\<close>

definition computeGaussHermiteMatrix_N ::
  "GLTables \<Rightarrow> int \<Rightarrow> BsplineInterpolator1d \<Rightarrow> nat \<Rightarrow> real \<Rightarrow> real \<Rightarrow> real \<Rightarrow> Matrix" where
  "computeGaussHermiteMatrix_N gl N interp order ampl center width =
     (let NnodesGL = min (MAX_GL_TABLE gl) (max ((N + int order + 1) div 2 + 1) 3);
          glnodes = GLPOINTS gl (nat NnodesGL);
          glweights = GLWEIGHTS gl (nat NnodesGL);
          gridSize = int (length (xvalues interp));
          numBsplines = numValues interp
      in \<lparr>rows = order + 1, cols = numBsplines,
          data = matrixLoopN N interp order ampl center width glnodes glweights NnodesGL gridSize 0
                   (\<lambda>i. 0) (\<lambda>i. 0)\<rparr>)"

text \<open>
  The entry point: the \<^verbatim>\<open>switch\<close> over the degree. The constructor of the interpolator
  of degree \<open>N\<close> over a grid is the parameter \<open>bspline\<close>.
\<close>

definition computeGaussHermiteMatrix ::
  "GLTables \<Rightarrow> (int \<Rightarrow> real list \<Rightarrow> BsplineInterpolator1d) \<Rightarrow> int \<Rightarrow> real list \<Rightarrow> nat
     \<Rightarrow> real \<Rightarrow> real \<Rightarrow> real \<Rightarrow> error + Matrix" where
  "computeGaussHermiteMatrix gl bspline N grid order ampl center width =
     (if N = 0 then Inr (computeGaussHermiteMatrix_N gl 0 (bspline 0 grid) order ampl center width)
      else if N = 1 then Inr (computeGaussHermiteMatrix_N gl 1 (bspline 1 grid) order ampl center width)
      else if N = 2 then Inr (computeGaussHermiteMatrix_N gl 2 (bspline 2 grid) order ampl center width)
      else if N = 3 then Inr (computeGaussHermiteMatrix_N gl 3 (bspline 3 grid) order ampl center width)
      else Inl (InvalidArgument ''computeGaussHermiteMatrix: wrong B-spline degree''))"

subsection \<open>Construction of an expansion\<close>

text \<open>
  The envelope arguments of the constructor may be non-finite (their default is NaN), which
  is what selects the fit: here a \<^verbatim>\<open>double\<close> argument keeps its IEEE class, and the sum
  of two finite doubles is rounded and is an infinity when it is beyond \<open>DBL_MAX\<close>.
\<close>

datatype double = Finite real | PlusInfinity | MinusInfinity | NaN

fun dadd :: "double \<Rightarrow> double \<Rightarrow> double" where
  "dadd (Finite a) (Finite b) =
     (let s = fl64 (a + b)
      in if DBL_MAX < s then PlusInfinity else if s < - DBL_MAX then MinusInfinity else Finite s)"
| "dadd NaN _ = NaN"
| "dadd _ NaN = NaN"
| "dadd PlusInfinity MinusInfinity = NaN"
| "dadd MinusInfinity PlusInfinity = NaN"
| "dadd PlusInfinity _ = PlusInfinity"
| "dadd _ PlusInfinity = PlusInfinity"
| "dadd MinusInfinity _ = MinusInfinity"
| "dadd _ MinusInfinity = MinusInfinity"

fun isFinite :: "double \<Rightarrow> bool" where
  "isFinite (Finite a) = True"
| "isFinite _ = False"

fun to_real :: "double \<Rightarrow> real" where
  "to_real (Finite a) = a"
| "to_real _ = 0"

text \<open>\<^verbatim>\<open>std::vector::resize\<close>: cut, or fill with zeros.\<close>

definition resize :: "real list \<Rightarrow> nat \<Rightarrow> real list" where
  "resize xs n = take n xs @ replicate (n - length xs) 0"

text \<open>
  \<^verbatim>\<open>math::nonlinearMultiFit\<close> is an external collaborator: the model (its \<^verbatim>\<open>evalDeriv\<close>, its
  numbers of variables and of values), the starting point, the accuracy, the budget; it
  fills the output array.
\<close>

type_synonym fitsolver =
  "(buffer \<Rightarrow> buffer option \<Rightarrow> buffer option \<Rightarrow> buffer option \<times> buffer option)
     \<Rightarrow> nat \<Rightarrow> nat \<Rightarrow> buffer \<Rightarrow> real \<Rightarrow> nat \<Rightarrow> buffer"

text \<open>The stages of a construction, in the order in which they were run.\<close>

datatype stage = MomentEstimation | Fitting | CoefficientIntegration

text \<open>
  The constructor: the stages run and either the exception or the object. The second
  error, \<open>NonFinite\<close>, is no exception of the source: it marks a checked operation of the
  moment estimator that left the reals.
\<close>

definition GaussHermiteExpansion_new ::
  "integrator \<Rightarrow> fitsolver \<Rightarrow> (real \<Rightarrow> real) \<Rightarrow> nat \<Rightarrow> double \<Rightarrow> double \<Rightarrow> double
     \<Rightarrow> stage list \<times> (error + GaussHermiteExpansion)" where
  "GaussHermiteExpansion_new integrateNdim nonlinearMultiFit fnc order ampl center width =
     (if order < 2 then
        ([], Inl (InvalidArgument ''GaussHermiteExpansion: order must be >=2''))
      else if \<not> isFinite (dadd (dadd ampl center) width) then
        (case computeClassicMoments integrateNdim fnc of
           None \<Rightarrow> ([MomentEstimation], Inl NonFinite)
         | Some params0 \<Rightarrow>
             (let fitorder = 2;
                  params = resize params0 (fitorder + 1);
                  out = nonlinearMultiFit (evalDeriv fitorder fnc)
                          (GaussHermiteFitter_numVars fitorder) GaussHermiteFitter_numValues
                          (\<lambda>i. params ! i) (1 / 1000000) 100;
                  params' = map out [0..<length params];
                  A = params' ! 0; C = params' ! 1; W = params' ! 2
              in ([MomentEstimation, Fitting, CoefficientIntegration],
                  Inr \<lparr>Ampl = A, Center = C, Width = W,
                       moments = computeGaussHermiteMoments fnc order A C W\<rparr>)))
      else
        (let A = to_real ampl; C = to_real center; W = to_real width
         in ([CoefficientIntegration],
             Inr \<lparr>Ampl = A, Center = C, Width = W,
                  moments = computeGaussHermiteMoments fnc order A C W\<rparr>)))"

subsection \<open>Facts about hermiteArray\<close>

declare hermiteLoop.simps [simp del]

lemma sqroots_nth: "n < 8 \<Longrightarrow> sqroots ! n = sqrt (real n + 1)"
proof -
  assume "n < 8"
  then consider "n = 0" | "n = 1" | "n = 2" | "n = 3" | "n = 4" | "n = 5" | "n = 6" | "n = 7"
    by linarith
  then show ?thesis
    by cases (simp_all add: sqroots_def)
qed

lemma hermiteLoop_unfold:
  "n < nmax \<Longrightarrow> s = (if n < 8 then sqroots ! nat n else sqrt (of_int n + 1)) \<Longrightarrow>
   hermiteLoop nmax x n sqrtn result =
     hermiteLoop nmax x (n + 1) s
       (result(nat (n + 1) := (M_SQRT2 * x * result (nat n) - sqrtn * result (nat (n - 1))) / s))"
  by (subst hermiteLoop.simps) (simp add: Let_def)

lemma hermiteLoop_exit: "\<not> n < nmax \<Longrightarrow> hermiteLoop nmax x n sqrtn result = result"
  by (subst hermiteLoop.simps) simp

lemma hermiteLoop_frame:
  "k \<le> nat n \<Longrightarrow> 1 \<le> n \<Longrightarrow> hermiteLoop nmax x n sqrtn result k = result k"
proof (induction nmax x n sqrtn result rule: hermiteLoop.induct)
  case (1 nmax x n sqrtn result)
  show ?case
  proof (cases "n < nmax")
    case True
    define s where "s = (if n < 8 then sqroots ! nat n else sqrt (of_int n + 1))"
    define r where "r = result(nat (n + 1) :=
                         (M_SQRT2 * x * result (nat n) - sqrtn * result (nat (n - 1))) / s)"
    have k: "k \<le> nat (n + 1)" "1 \<le> n + 1" "k \<noteq> nat (n + 1)"
      using "1.prems" by auto
    have "hermiteLoop nmax x (n + 1) s r k = r k"
      using "1.IH" [OF True s_def r_def] k by simp
    also have "r k = result k"
      using k by (simp add: r_def)
    finally show ?thesis
      using hermiteLoop_unfold [OF True s_def] by (simp add: r_def)
  next
    case False
    then show ?thesis
      by (simp add: hermiteLoop_exit)
  qed
qed

lemma hermiteLoop_above:
  "nat nmax < k \<Longrightarrow> 1 \<le> n \<Longrightarrow> hermiteLoop nmax x n sqrtn result k = result k"
proof (induction nmax x n sqrtn result rule: hermiteLoop.induct)
  case (1 nmax x n sqrtn result)
  show ?case
  proof (cases "n < nmax")
    case True
    define s where "s = (if n < 8 then sqroots ! nat n else sqrt (of_int n + 1))"
    define r where "r = result(nat (n + 1) :=
                         (M_SQRT2 * x * result (nat n) - sqrtn * result (nat (n - 1))) / s)"
    have k: "1 \<le> n + 1" "k \<noteq> nat (n + 1)"
      using "1.prems" True by auto
    have "hermiteLoop nmax x (n + 1) s r k = r k"
      using "1.IH" [OF True s_def r_def] k "1.prems" by simp
    also have "r k = result k"
      using k by (simp add: r_def)
    finally show ?thesis
      using hermiteLoop_unfold [OF True s_def] by (simp add: r_def)
  next
    case False
    then show ?thesis
      by (simp add: hermiteLoop_exit)
  qed
qed

lemma hermite_step_value:
  assumes "1 \<le> n" "\<forall>k \<le> nat n. result k = hermite_spec x k"
  shows "(M_SQRT2 * x * result (nat n) - sqrt (of_int n) * result (nat (n - 1))) / sqrt (of_int (n + 1))
          = hermite_spec x (nat (n + 1))"
proof -
  obtain m where m: "nat n = Suc m"
    using assms(1) by (cases "nat n") auto
  have nm: "nat (n - 1) = m" "nat (n + 1) = Suc (Suc m)"
    using m assms(1) by linarith+
  have rn: "real_of_int n = real (Suc m)" "real_of_int (n + 1) = real (Suc (Suc m))"
    using m assms(1) by linarith+
  have "result (Suc m) = hermite_spec x (Suc m)" "result m = hermite_spec x m"
    using assms(2) m by auto
  then show ?thesis
    unfolding nm rn m M_SQRT2_def by simp
qed

lemma hermiteLoop_spec:
  assumes "1 \<le> n" "n \<le> nmax"
    and "sqrtn = sqrt (of_int n)"
    and "\<forall>k \<le> nat n. result k = hermite_spec x k"
    and "k \<le> nat nmax"
  shows "hermiteLoop nmax x n sqrtn result k = hermite_spec x k"
  using assms
proof (induction nmax x n sqrtn result rule: hermiteLoop.induct)
  case (1 nmax x n sqrtn result)
  show ?case
  proof (cases "n < nmax")
    case True
    define s where "s = (if n < 8 then sqroots ! nat n else sqrt (of_int n + 1))"
    define r where "r = result(nat (n + 1) :=
                         (M_SQRT2 * x * result (nat n) - sqrtn * result (nat (n - 1))) / s)"
    have s: "s = sqrt (of_int (n + 1))"
      using "1.prems"(1) sqroots_nth [of "nat n"] by (simp add: s_def)
    have new: "r (nat (n + 1)) = hermite_spec x (nat (n + 1))"
      using hermite_step_value [OF "1.prems"(1,4)] "1.prems"(3) by (simp add: r_def s)
    have inv: "\<forall>k \<le> nat (n + 1). r k = hermite_spec x k"
    proof (intro allI impI)
      fix j assume "j \<le> nat (n + 1)"
      then consider "j = nat (n + 1)" | "j \<le> nat n"
        using "1.prems"(1) by linarith
      then show "r j = hermite_spec x j"
      proof cases
        case 1
        then show ?thesis using new by simp
      next
        case 2
        then have "j \<noteq> nat (n + 1)" using "1.prems"(1) by linarith
        then show ?thesis using 2 "1.prems"(4) by (simp add: r_def)
      qed
    qed
    have "hermiteLoop nmax x (n + 1) s r k = hermite_spec x k"
      using "1.IH" [OF True s_def r_def] True "1.prems"(1,5) s inv by simp
    then show ?thesis
      using hermiteLoop_unfold [OF True s_def] by (simp add: r_def)
  next
    case False
    then have "n = nmax" using "1.prems"(2) by simp
    then show ?thesis
      using "1.prems"(4,5) False by (simp add: hermiteLoop_exit)
  qed
qed

lemma hermiteArray_spec:
  assumes "1 \<le> nmax" "k \<le> nat nmax"
  shows "hermiteArray nmax x result k = hermite_spec x k"
proof -
  let ?r = "(result(0 := 1))(1 := M_SQRT2 * x)"
  have "\<forall>k \<le> nat 1. ?r k = hermite_spec x k"
  proof (intro allI impI)
    fix j :: nat assume "j \<le> nat 1"
    then consider "j = 0" | "j = 1" by fastforce
    then show "?r j = hermite_spec x j"
      by cases (simp_all add: M_SQRT2_def)
  qed
  then have "hermiteLoop nmax x 1 1 ?r k = hermite_spec x k"
    using assms by (intro hermiteLoop_spec) simp_all
  then show ?thesis
    using assms(1) by (simp add: hermiteArray_def Let_def)
qed

lemma hermiteArray_above:
  assumes "nat nmax < k" "0 < k"
  shows "hermiteArray nmax x result k = result k"
proof (cases "nmax < 1")
  case True
  then show ?thesis by (simp add: hermiteArray_def)
next
  case False
  then have "1 < k" using assms by linarith
  then show ?thesis
    using False assms hermiteLoop_above [of nmax k 1 x 1 "(result(0 := 1))(1 := M_SQRT2 * x)"]
    by (simp add: hermiteArray_def Let_def)
qed

text \<open>
  \<^verbatim>\<open>value\<close> calls \<open>hermiteArray\<close> with \<open>ncoefs - 1\<close> and guards \<open>ncoefs = 0\<close> only: with one
  coefficient it reads the cell that degree 0 leaves unwritten, that is, the stack.
\<close>

lemma value_one_coefficient_reads_stack:
  "GaussHermiteExpansion_value \<lparr>Ampl = a, Center = c, Width = w, moments = [m]\<rparr> stack x
   = m * stack 0 * ((1 / M_SQRT2 / M_SQRTPI) * a / w * exp (- 0.5 * pow_2 ((x - c) / w)))"
proof -
  have "valueLoop [m] (hermiteArray 0 ((x - c) / w) stack) 0 0 = m * stack 0"
    by (subst valueLoop.simps, subst valueLoop.simps) (simp add: hermiteArray_def)
  then show ?thesis
    by (simp add: GaussHermiteExpansion_value_def Let_def)
qed

subsection \<open>Facts about rounding\<close>

lemma rne_down: "of_int z \<le> r \<Longrightarrow> r - of_int z < 1 / 2 \<Longrightarrow> rne r = z"
proof -
  assume a: "of_int z \<le> r" "r - of_int z < 1 / 2"
  then have "\<lfloor>r\<rfloor> = z" by (intro floor_unique) auto
  then show ?thesis using a by (simp add: rne_def)
qed

lemma rne_up: "r < of_int z + 1 \<Longrightarrow> 1 / 2 < r - of_int z \<Longrightarrow> rne r = z + 1"
proof -
  assume a: "r < of_int z + 1" "1 / 2 < r - of_int z"
  then have "\<lfloor>r\<rfloor> = z" by (intro floor_unique) auto
  then show ?thesis using a by (simp add: rne_def)
qed

lemma rne_error: "\<bar>of_int (rne r) - r\<bar> \<le> 1 / 2"
proof -
  have "of_int \<lfloor>r\<rfloor> \<le> r" "r < of_int \<lfloor>r\<rfloor> + 1" by linarith+
  then show ?thesis
    by (auto simp add: rne_def Let_def)
qed

lemma rne_minus: "rne (- r) = - rne r"
proof (cases "r = of_int \<lfloor>r\<rfloor>")
  case True
  then obtain z where z: "r = of_int z" by metis
  have "rne (of_int z) = z" "rne (- of_int z) = - z"
    using rne_down [of z "of_int z"] rne_down [of "- z" "- of_int z"] by simp_all
  then show ?thesis by (simp add: z)
next
  case False
  define f where "f = \<lfloor>r\<rfloor>"
  have f: "of_int f < r" "r < of_int f + 1"
    using False unfolding f_def by linarith+
  then have fm: "\<lfloor>- r\<rfloor> = - f - 1"
    by (intro floor_unique) auto
  show ?thesis
    using f unfolding rne_def Let_def fm f_def [symmetric]
    by (auto simp add: algebra_simps)
qed

lemma fl64_minus: "fl64 (- x) = - fl64 x"
  by (simp add: fl64_def Let_def rne_minus)

lemma fl64_0: "fl64 0 = 0"
  by (simp add: fl64_def)

lemma fl64_eval:
  assumes "2 powr of_int e \<le> \<bar>x\<bar>" "\<bar>x\<bar> < 2 powr (of_int e + 1)"
  shows "fl64 x = 2 powr (of_int e - 52) * of_int (rne (x / 2 powr (of_int e - 52)))"
proof -
  have pos: "0 < \<bar>x\<bar>" using assms(1) by (smt (verit) powr_gt_zero)
  have "of_int e \<le> log 2 \<bar>x\<bar>"
    using assms(1) pos by (simp add: le_log_iff)
  moreover have "log 2 \<bar>x\<bar> < of_int e + 1"
    using assms(2) pos by (simp add: log_less_iff)
  ultimately have "\<lfloor>log 2 \<bar>x\<bar>\<rfloor> = e"
    by (intro floor_unique) auto
  then show ?thesis
    using pos by (simp add: fl64_def Let_def)
qed

lemma fl64_error: "\<bar>fl64 x - x\<bar> \<le> \<bar>x\<bar> / 2 ^ 53"
proof (cases "x = 0")
  case True
  then show ?thesis by (simp add: fl64_def)
next
  case False
  define e where "e = \<lfloor>log 2 \<bar>x\<bar>\<rfloor>"
  define u :: real where "u = 2 powr (of_int e - 52)"
  have u: "0 < u" by (simp add: u_def)
  have "of_int e \<le> log 2 \<bar>x\<bar>" unfolding e_def by linarith
  then have low: "2 powr of_int e \<le> \<bar>x\<bar>"
    using False by (simp add: le_log_iff)
  have "fl64 x - x = u * (of_int (rne (x / u)) - x / u)"
    using False u by (simp add: fl64_def Let_def e_def u_def algebra_simps)
  then have "\<bar>fl64 x - x\<bar> = u * \<bar>of_int (rne (x / u)) - x / u\<bar>"
    using u by (simp add: abs_mult)
  also have "\<dots> \<le> u * (1 / 2)"
    using u rne_error [of "x / u"] by (intro mult_left_mono) auto
  also have "u * (1 / 2) = 2 powr of_int e / 2 ^ 53"
  proof -
    have "u = 2 powr of_int e * 2 powr (- 52)"
      unfolding u_def by (simp add: powr_diff powr_minus field_simps)
    then show ?thesis by (simp add: powr_minus field_simps)
  qed
  also have "\<dots> \<le> \<bar>x\<bar> / 2 ^ 53"
    using low by (simp add: divide_right_mono)
  finally show ?thesis .
qed

lemma fl64_one_seventh: "fl64 (1 / 7) = 5146971002709138 / 2 ^ 55"
proof -
  have "rne (1 / 7 / 2 powr (of_int (- 3) - 52)) = 5146971002709138"
    by (rule rne_down) (simp_all add: powr_neg_numeral)
  then show ?thesis
    using fl64_eval [of "- 3" "1 / 7"] by (simp add: powr_neg_numeral)
qed

lemma fl64_seven: "fl64 7 = 7"
proof -
  have "rne (7 / 2 powr (of_int 2 - 52)) = 7881299347898368"
    by (rule rne_down) (simp_all add: powr_neg_numeral)
  then show ?thesis
    using fl64_eval [of 2 7] by (simp add: powr_neg_numeral)
qed

lemma fl64_one: "fl64 1 = 1"
proof -
  have "rne (1 / 2 powr (of_int 0 - 52)) = 4503599627370496"
    by (rule rne_down) (simp_all add: powr_neg_numeral)
  then show ?thesis
    using fl64_eval [of 0 1] by (simp add: powr_neg_numeral)
qed

lemma fl64_two: "fl64 2 = 2"
proof -
  have "rne (2 / 2 powr (of_int 1 - 52)) = 4503599627370496"
    by (rule rne_down) (simp_all add: powr_neg_numeral)
  then show ?thesis
    using fl64_eval [of 1 2] by (simp add: powr_neg_numeral)
qed

lemma one_below_DBL_MAX: "2 < DBL_MAX"
  by (simp add: DBL_MAX_def)

lemma unit_envelope_is_finite:
  "isFinite (dadd (dadd (Finite 1) (Finite 0)) (Finite 1))"
  using one_below_DBL_MAX by (simp add: fl64_one fl64_two Let_def)

subsection \<open>Facts about the constructor\<close>

text \<open>
  The estimator always returns, so the branch \<open>NonFinite\<close> of the constructor is never
  taken: a construction with \<open>order \<ge> 2\<close> yields an object, and a finite envelope skips
  the fit.
\<close>

lemma computeClassicMoments_returns:
  "\<exists>m. computeClassicMoments integrateNdim fnc = Some m"
  by (auto simp add: computeClassicMoments_def checked_div_def checked_sqrt_def fmax_def
           split: prod.splits option.splits if_splits)

lemma constructor_succeeds:
  assumes "2 \<le> order"
  shows "\<exists>stages e. GaussHermiteExpansion_new integrateNdim nonlinearMultiFit fnc order
                        ampl center width = (stages, Inr e)"
proof (cases "isFinite (dadd (dadd ampl center) width)")
  case True
  then show ?thesis
    using assms by (simp add: GaussHermiteExpansion_new_def Let_def)
next
  case False
  obtain m where "computeClassicMoments integrateNdim fnc = Some m"
    using computeClassicMoments_returns by blast
  then show ?thesis
    using assms False by (simp add: GaussHermiteExpansion_new_def Let_def)
qed

lemma finite_sum_skips_fit:
  assumes "2 \<le> order" "isFinite (dadd (dadd ampl center) width)"
  shows "fst (GaussHermiteExpansion_new integrateNdim nonlinearMultiFit fnc order
                ampl center width) = [CoefficientIntegration]"
  using assms by (simp add: GaussHermiteExpansion_new_def Let_def)

text \<open>A finite envelope whose sum overflows is fitted.\<close>

lemma overflowing_sum: "dadd (Finite DBL_MAX) (Finite DBL_MAX) = PlusInfinity"
proof -
  have "rne ((DBL_MAX + DBL_MAX) / 2 powr (of_int 1024 - 52)) = 9007199254740991"
    by (rule rne_down) (simp_all add: DBL_MAX_def)
  then have "fl64 (DBL_MAX + DBL_MAX) = DBL_MAX + DBL_MAX"
    using fl64_eval [of 1024 "DBL_MAX + DBL_MAX"] by (simp add: DBL_MAX_def)
  moreover have "0 < DBL_MAX" by (simp add: DBL_MAX_def)
  ultimately show ?thesis by (simp add: Let_def)
qed

lemma overflowing_envelope_is_fitted:
  assumes "2 \<le> order"
  shows "fst (GaussHermiteExpansion_new integrateNdim nonlinearMultiFit fnc order
                (Finite DBL_MAX) (Finite DBL_MAX) (Finite 1))
         = [MomentEstimation, Fitting, CoefficientIntegration]"
proof -
  obtain m where "computeClassicMoments integrateNdim fnc = Some m"
    using computeClassicMoments_returns by blast
  moreover have "\<not> isFinite (dadd (dadd (Finite DBL_MAX) (Finite DBL_MAX)) (Finite 1))"
    unfolding overflowing_sum by simp
  ultimately show ?thesis
    using assms by (simp add: GaussHermiteExpansion_new_def Let_def del: dadd.simps)
qed

section \<open>The claims\<close>

subsection \<open>hermiteArray\<close>

text \<open>
  Claim C2. For every \<open>nmax \<ge> 0\<close>, \<open>hermiteArray\<close> writes \<open>result[0] = 1\<close>; a call with
  \<open>nmax = 0\<close> returns at once having set \<open>result[0] = 1\<close>. The code returns on
  \<^verbatim>\<open>nmax<1\<close> before the write: at \<open>nmax = 0\<close> the cell keeps what it held (here 5).
\<close>

theorem hermiteArray_degree0_result0_unset:
  "hermiteArray 0 0 (\<lambda>i. 5) 0 = 5 \<and> hermiteArray 0 0 (\<lambda>i. 5) 0 \<noteq> 1"
  by (simp add: hermiteArray_def)

text \<open>
  Claim C3. For \<open>nmax \<ge> 1\<close> the array holds \<open>result[0] = 1\<close>, \<open>result[1] = sqrt 2 * x\<close> and,
  for \<open>1 \<le> n < nmax\<close>,
  \<open>result[n+1] = (sqrt 2 * x * result[n] - sqrt n * result[n-1]) / sqrt (n+1)\<close>;
  the table of square roots agrees with the square root computed at run time.
\<close>

theorem hermiteArray_recurrence:
  assumes "1 \<le> nmax"
  shows "hermiteArray nmax x result 0 = 1
       \<and> hermiteArray nmax x result 1 = sqrt 2 * x
       \<and> (\<forall>n. 1 \<le> n \<and> n < nat nmax \<longrightarrow>
            hermiteArray nmax x result (n + 1) =
              (sqrt 2 * x * hermiteArray nmax x result n
                 - sqrt (real n) * hermiteArray nmax x result (n - 1)) / sqrt (real n + 1))
       \<and> (\<forall>n < 8. sqroots ! n = sqrt (real n + 1))"
proof (intro conjI allI impI)
  show "hermiteArray nmax x result 0 = 1"
    using hermiteArray_spec [OF assms, of 0 x result] by simp
  show "hermiteArray nmax x result 1 = sqrt 2 * x"
    using hermiteArray_spec [OF assms, of 1 x result] assms by simp
next
  fix n assume n: "1 \<le> n \<and> n < nat nmax"
  then obtain m where m: "n = Suc m" by (cases n) auto
  have "hermiteArray nmax x result (Suc (Suc m)) = hermite_spec x (Suc (Suc m))"
       "hermiteArray nmax x result (Suc m) = hermite_spec x (Suc m)"
       "hermiteArray nmax x result m = hermite_spec x m"
    using n m by (simp_all add: hermiteArray_spec [OF assms])
  then show "hermiteArray nmax x result (n + 1) =
              (sqrt 2 * x * hermiteArray nmax x result n
                 - sqrt (real n) * hermiteArray nmax x result (n - 1)) / sqrt (real n + 1)"
    by (simp add: m add.commute)
next
  fix n :: nat assume "n < 8"
  then show "sqroots ! n = sqrt (real n + 1)" by (rule sqroots_nth)
qed

theorem hermiteArray_recurrence_witness:
  "(1::int) \<le> 3
   \<and> hermiteArray 3 1 (\<lambda>i. 0) 0 = 1
   \<and> hermiteArray 3 1 (\<lambda>i. 0) 1 = sqrt 2
   \<and> hermiteArray 3 1 (\<lambda>i. 0) 2 = 1 / sqrt 2
   \<and> hermiteArray 3 1 (\<lambda>i. 0) 3 = - 1 / sqrt 3
   \<and> sqroots ! 3 = sqrt 4"
proof -
  have h: "(1::int) \<le> 3" by simp
  note t = hermiteArray_recurrence [OF h, of 1 "\<lambda>i. 0"]
  have a: "hermiteArray 3 1 (\<lambda>i. 0) 0 = 1" "hermiteArray 3 1 (\<lambda>i. 0) 1 = sqrt 2"
    using t by simp_all
  have r: "\<And>n. 1 \<le> n \<Longrightarrow> n < 3 \<Longrightarrow> hermiteArray 3 1 (\<lambda>i. 0) (n + 1) =
              (sqrt 2 * 1 * hermiteArray 3 1 (\<lambda>i. 0) n
                 - sqrt (real n) * hermiteArray 3 1 (\<lambda>i. 0) (n - 1)) / sqrt (real n + 1)"
    using t by simp
  have b: "hermiteArray 3 1 (\<lambda>i. 0) 2 = 1 / sqrt 2"
    using r [of 1] a by (simp add: numeral_2_eq_2)
  have c: "hermiteArray 3 1 (\<lambda>i. 0) 3 = - 1 / sqrt 3"
    using r [of 2] a b by (simp add: numeral_2_eq_2 numeral_3_eq_3)
  have s: "sqroots ! 3 = sqrt 4"
    using t by simp
  show ?thesis
    using h a b c s by simp
qed

subsection \<open>Invalid configurations\<close>

text \<open>
  Claim C6. A construction with \<open>order < 2\<close> fails with the invalid-argument error before
  anything is computed: no stage is run (no moment estimation, no fit, no integration of
  the coefficients) and no object is produced.
\<close>

theorem constructor_rejects_small_order:
  assumes "order < 2"
  shows "GaussHermiteExpansion_new integrateNdim nonlinearMultiFit fnc order ampl center width
         = ([], Inl (InvalidArgument ''GaussHermiteExpansion: order must be >=2''))"
  using assms by (simp add: GaussHermiteExpansion_new_def)

theorem constructor_rejects_small_order_witness:
  "(1::nat) < 2
   \<and> GaussHermiteExpansion_new (\<lambda>f a b eps n. (1, 0, 1)) (\<lambda>f nv nq init acc n. init) (\<lambda>x. 1) 1
        (Finite 1) (Finite 0) (Finite 1)
      = ([], Inl (InvalidArgument ''GaussHermiteExpansion: order must be >=2''))"
proof -
  have h: "(1::nat) < 2" by simp
  show ?thesis
    using h constructor_rejects_small_order [OF h] by simp
qed

text \<open>
  Claim C7. The entry point of the matrix builder hands a degree \<open>N\<close> of 0, 1, 2 or 3 to
  the builder of that degree, and raises the invalid-argument error for every other \<open>N\<close>,
  whatever the other arguments are.
\<close>

theorem computeGaussHermiteMatrix_dispatch:
  "(N \<in> {0, 1, 2, 3} \<longrightarrow>
      computeGaussHermiteMatrix gl bspline N grid order ampl center width
      = Inr (computeGaussHermiteMatrix_N gl N (bspline N grid) order ampl center width))
   \<and> (N \<notin> {0, 1, 2, 3} \<longrightarrow>
      computeGaussHermiteMatrix gl bspline N grid order ampl center width
      = Inl (InvalidArgument ''computeGaussHermiteMatrix: wrong B-spline degree''))"
  by (auto simp add: computeGaussHermiteMatrix_def)

theorem computeGaussHermiteMatrix_dispatch_witness:
  "(2::int) \<in> {0, 1, 2, 3}
   \<and> computeGaussHermiteMatrix
        \<lparr>MAX_GL_TABLE = 3, GLPOINTS = (\<lambda>n i. 0), GLWEIGHTS = (\<lambda>n i. 0)\<rparr>
        (\<lambda>N grid. \<lparr>xvalues = grid, numValues = 1, nonzeroComponents = (\<lambda>x d. (0, \<lambda>i. 0))\<rparr>)
        2 [0, 1] 2 1 0 1
      = Inr (computeGaussHermiteMatrix_N
               \<lparr>MAX_GL_TABLE = 3, GLPOINTS = (\<lambda>n i. 0), GLWEIGHTS = (\<lambda>n i. 0)\<rparr> 2
               \<lparr>xvalues = [0, 1], numValues = 1, nonzeroComponents = (\<lambda>x d. (0, \<lambda>i. 0))\<rparr>
               2 1 0 1)
   \<and> (4::int) \<notin> {0, 1, 2, 3}
   \<and> computeGaussHermiteMatrix
        \<lparr>MAX_GL_TABLE = 3, GLPOINTS = (\<lambda>n i. 0), GLWEIGHTS = (\<lambda>n i. 0)\<rparr>
        (\<lambda>N grid. \<lparr>xvalues = grid, numValues = 1, nonzeroComponents = (\<lambda>x d. (0, \<lambda>i. 0))\<rparr>)
        4 [0, 1] 2 1 0 1
      = Inl (InvalidArgument ''computeGaussHermiteMatrix: wrong B-spline degree'')
   \<and> (- 1::int) \<notin> {0, 1, 2, 3}
   \<and> computeGaussHermiteMatrix
        \<lparr>MAX_GL_TABLE = 3, GLPOINTS = (\<lambda>n i. 0), GLWEIGHTS = (\<lambda>n i. 0)\<rparr>
        (\<lambda>N grid. \<lparr>xvalues = grid, numValues = 1, nonzeroComponents = (\<lambda>x d. (0, \<lambda>i. 0))\<rparr>)
        (- 1) [0, 1] 2 1 0 1
      = Inl (InvalidArgument ''computeGaussHermiteMatrix: wrong B-spline degree'')"
  using computeGaussHermiteMatrix_dispatch [of 2
          "\<lparr>MAX_GL_TABLE = 3, GLPOINTS = (\<lambda>n i. 0), GLWEIGHTS = (\<lambda>n i. 0)\<rparr>"
          "\<lambda>N grid. \<lparr>xvalues = grid, numValues = 1, nonzeroComponents = (\<lambda>x d. (0, \<lambda>i. 0))\<rparr>"
          "[0, 1]" 2 1 0 1]
        computeGaussHermiteMatrix_dispatch [of 4
          "\<lparr>MAX_GL_TABLE = 3, GLPOINTS = (\<lambda>n i. 0), GLWEIGHTS = (\<lambda>n i. 0)\<rparr>"
          "\<lambda>N grid. \<lparr>xvalues = grid, numValues = 1, nonzeroComponents = (\<lambda>x d. (0, \<lambda>i. 0))\<rparr>"
          "[0, 1]" 2 1 0 1]
        computeGaussHermiteMatrix_dispatch [of "- 1"
          "\<lparr>MAX_GL_TABLE = 3, GLPOINTS = (\<lambda>n i. 0), GLWEIGHTS = (\<lambda>n i. 0)\<rparr>"
          "\<lambda>N grid. \<lparr>xvalues = grid, numValues = 1, nonzeroComponents = (\<lambda>x d. (0, \<lambda>i. 0))\<rparr>"
          "[0, 1]" 2 1 0 1]
  by simp

subsection \<open>Moment estimator\<close>

text \<open>
  Claim C9. When the accumulated normalisation is zero, the mean and the standard deviation
  returned are exactly zero, and no division by zero is performed (the result is \<open>Some\<close>).
\<close>

theorem computeClassicMoments_zero_norm:
  assumes "fst (integrateNdim (MomentsIntegrand_eval fnc) 0 1 EPSREL_MOMENTS 1000) = 0"
  shows "computeClassicMoments integrateNdim fnc = Some [0, 0, 0]"
proof -
  obtain result0 result1 result2 where
    r: "integrateNdim (MomentsIntegrand_eval fnc) 0 1 EPSREL_MOMENTS 1000 = (result0, result1, result2)"
    by (cases "integrateNdim (MomentsIntegrand_eval fnc) 0 1 EPSREL_MOMENTS 1000") auto
  with assms have "result0 = 0" by simp
  then show ?thesis
    by (simp add: computeClassicMoments_def r)
qed

theorem computeClassicMoments_zero_norm_witness:
  "fst ((\<lambda>f a b eps n. (0, 5, 7)) (MomentsIntegrand_eval (\<lambda>x. 0)) 0 1 EPSREL_MOMENTS 1000) = (0::real)
   \<and> computeClassicMoments (\<lambda>f a b eps n. (0, 5, 7)) (\<lambda>x. 0) = Some [0, 0, 0]"
proof -
  have h: "fst ((\<lambda>f a b eps n. (0::real, 5::real, 7::real)) (MomentsIntegrand_eval (\<lambda>x. 0)) 0 1 EPSREL_MOMENTS 1000) = (0::real)"
    by simp
  show ?thesis
    using h computeClassicMoments_zero_norm [of "\<lambda>f a b eps n. (0, 5, 7)" "\<lambda>x. 0", OF h] by simp
qed

text \<open>
  Claim C10. Whatever the function and the outcome of the quadrature, the estimator
  returns (no checked operation fails, so nothing is NaN), its standard deviation is
  nonnegative, and it is zero when the raw estimate of the variance is negative.
\<close>

theorem computeClassicMoments_stddev_nonneg:
  "(case computeClassicMoments integrateNdim fnc of
      None \<Rightarrow> False
    | Some m \<Rightarrow>
        length m = 3 \<and> 0 \<le> m ! 2
        \<and> ((case integrateNdim (MomentsIntegrand_eval fnc) 0 1 EPSREL_MOMENTS 1000 of
               (result0, result1, result2) \<Rightarrow>
                 result0 \<noteq> 0 \<and> result2 / result0 - pow_2 (result1 / result0) < 0)
            \<longrightarrow> m ! 2 = 0))"
  by (auto simp add: computeClassicMoments_def checked_div_def checked_sqrt_def fmax_def
           split: prod.splits option.splits if_splits)

theorem computeClassicMoments_stddev_nonneg_witness:
  "computeClassicMoments (\<lambda>f a b eps n. (1, 2, 1)) (\<lambda>x. 0) = Some [1, 2, 0]
   \<and> (1::real) / 1 - pow_2 (2 / 1) < 0"
  using computeClassicMoments_stddev_nonneg [of "\<lambda>f a b eps n. (1, 2, 1)" "\<lambda>x. 0"]
  by (simp add: computeClassicMoments_def checked_div_def checked_sqrt_def fmax_def pow_2_def)

subsection \<open>Total integral of an expansion\<close>

declare normLoop.simps [simp del]

lemma normLoop_sum:
  assumes "even n"
  shows "normLoop ms n result
         = result + (\<Sum>k \<in> {k. n \<le> k \<and> k < length ms \<and> even k}. ms ! k * normn k)"
  using assms
proof (induction ms n result rule: normLoop.induct)
  case (1 ms n result)
  show ?case
  proof (cases "n < length ms")
    case True
    have split: "{k. n \<le> k \<and> k < length ms \<and> even k}
                 = insert n {k. n + 2 \<le> k \<and> k < length ms \<and> even k}"
    proof (intro set_eqI iffI)
      fix k assume k: "k \<in> {k. n \<le> k \<and> k < length ms \<and> even k}"
      show "k \<in> insert n {k. n + 2 \<le> k \<and> k < length ms \<and> even k}"
      proof (cases "k = n")
        case True then show ?thesis by simp
      next
        case False
        with k have "n < k" by simp
        moreover have "k \<noteq> n + 1" using k "1.prems" by auto
        ultimately show ?thesis using k by simp
      qed
    next
      fix k assume "k \<in> insert n {k. n + 2 \<le> k \<and> k < length ms \<and> even k}"
      then show "k \<in> {k. n \<le> k \<and> k < length ms \<and> even k}"
        using True "1.prems" by auto
    qed
    have fin: "finite {k. n + 2 \<le> k \<and> k < length ms \<and> even k}" by simp
    have notin: "n \<notin> {k. n + 2 \<le> k \<and> k < length ms \<and> even k}" by simp
    have "normLoop ms n result = normLoop ms (n + 2) (result + ms ! n * normn n)"
      using True by (subst normLoop.simps) simp
    also have "\<dots> = result + ms ! n * normn n
                 + (\<Sum>k \<in> {k. n + 2 \<le> k \<and> k < length ms \<and> even k}. ms ! k * normn k)"
      using "1.IH" [OF True] "1.prems" by simp
    finally show ?thesis
      unfolding split using fin notin by (simp add: add.assoc)
  next
    case False
    have empty: "{k. n \<le> k \<and> k < length ms \<and> even k} = {}" using False by auto
    show ?thesis
      unfolding empty using False by (subst normLoop.simps) simp
  qed
qed

text \<open>
  Claim C8. \<open>normn n\<close> is exactly 0 for every odd \<open>n\<close>; \<open>norm()\<close> is the amplitude times the
  sum over the even indices \<open>n\<close> of \<open>coefficients[n] * normn n\<close>; \<open>normn\<close> is a constant for
  \<open>n\<close> in 0, 2, 4, 6, 8 and \<open>sqrt (n!) / n!!\<close> beyond.
\<close>

theorem norm_is_even_sum:
  "(odd n \<longrightarrow> normn n = 0)
   \<and> GaussHermiteExpansion_norm e
       = Ampl e * (\<Sum>k \<in> {k. k < length (moments e) \<and> even k}. moments e ! k * normn k)
   \<and> normn 0 = 1
   \<and> normn 2 = 1 / sqrt 2
   \<and> normn 4 = 0.6123724356957945
   \<and> normn 6 = 0.5590169943749474
   \<and> normn 8 = 0.5229125165837972
   \<and> (even n \<and> 8 < n \<longrightarrow> normn n = sqrt (fact n) / dfactorial n)"
proof (intro conjI impI)
  show "normn n = 0" if "odd n"
    using that by (simp add: normn_def odd_iff_mod_2_eq_one)
  show "GaussHermiteExpansion_norm e
       = Ampl e * (\<Sum>k \<in> {k. k < length (moments e) \<and> even k}. moments e ! k * normn k)"
    using normLoop_sum [of 0 "moments e" 0] by (simp add: GaussHermiteExpansion_norm_def)
  show "normn n = sqrt (fact n) / dfactorial n" if "even n \<and> 8 < n"
    using that by (auto simp add: normn_def factorial_def even_iff_mod_2_eq_zero)
qed (simp_all add: normn_def M_SQRT2_def)

theorem norm_is_even_sum_witness:
  "odd (3::nat) \<and> normn 3 = 0
   \<and> even (10::nat) \<and> (8::nat) < 10 \<and> normn 10 = sqrt (fact 10) / dfactorial 10
   \<and> GaussHermiteExpansion_norm \<lparr>Ampl = 2, Center = 0, Width = 1, moments = [1, 5, 3]\<rparr>
       = 2 * (1 * normn 0 + 3 * normn 2)"
proof -
  have s: "{k. k < length [1::real, 5, 3] \<and> even k} = {0, 2}"
  proof -
    have "{k. k < length [1::real, 5, 3] \<and> even k} = {k. k < Suc (Suc (Suc 0)) \<and> even k}"
      by simp
    also have "\<dots> = {0, 2}"
      by (auto simp add: less_Suc_eq numeral_2_eq_2)
    finally show ?thesis .
  qed
  show ?thesis
    using norm_is_even_sum [of 3 "\<lparr>Ampl = 2, Center = 0, Width = 1, moments = [1, 5, 3]\<rparr>"]
          norm_is_even_sum [of 10 "\<lparr>Ampl = 2, Center = 0, Width = 1, moments = [1, 5, 3]\<rparr>"]
          s
    by simp
qed

subsection \<open>Direct integration of the coefficients\<close>

declare momentsInner.simps [simp del]
declare momentsOuter.simps [simp del]

lemma momentsInner_length:
  "length (momentsInner order mult fp fm hpoly i result) = length result"
proof (induction order mult fp fm hpoly i result rule: momentsInner.induct)
  case (1 order mult fp fm hpoly i result)
  show ?case
  proof (cases "i \<le> order")
    case True
    then show ?thesis
      using "1.IH" [OF True] by (subst momentsInner.simps) simp
  next
    case False
    then show ?thesis by (subst momentsInner.simps) simp
  qed
qed

lemma momentsInner_nth:
  assumes "k < length result"
  shows "momentsInner order mult fp fm hpoly i result ! k
         = result ! k
           + (if i \<le> k \<and> k \<le> order
              then mult * (fp + (if k mod 2 \<noteq> 0 then - 1 else 1) * fm) * hpoly k else 0)"
  using assms
proof (induction order mult fp fm hpoly i result rule: momentsInner.induct)
  case (1 order mult fp fm hpoly i result)
  show ?case
  proof (cases "i \<le> order")
    case True
    define r where
      "r = result[i := result ! i + mult * (fp + (if i mod 2 \<noteq> 0 then - 1 else 1) * fm) * hpoly i]"
    have len: "k < length r" using "1.prems" by (simp add: r_def)
    have step: "momentsInner order mult fp fm hpoly i result
                = momentsInner order mult fp fm hpoly (i + 1) r"
      using True by (subst momentsInner.simps) (simp add: r_def)
    have ih: "momentsInner order mult fp fm hpoly (i + 1) r ! k
              = r ! k + (if i + 1 \<le> k \<and> k \<le> order
                         then mult * (fp + (if k mod 2 \<noteq> 0 then - 1 else 1) * fm) * hpoly k else 0)"
      using "1.IH" [OF True] len by (simp add: r_def)
    show ?thesis
    proof (cases "k = i")
      case True
      then have "r ! k = result ! k + mult * (fp + (if k mod 2 \<noteq> 0 then - 1 else 1) * fm) * hpoly k"
        using "1.prems" by (simp add: r_def)
      then show ?thesis
        using step ih True \<open>i \<le> order\<close> by simp
    next
      case False
      then have "r ! k = result ! k" by (simp add: r_def)
      moreover have "(i + 1 \<le> k) = (i \<le> k)" using False by auto
      ultimately show ?thesis
        using step ih by simp
    qed
  next
    case False
    then show ?thesis by (subst momentsInner.simps) simp
  qed
qed

lemma int_sum_head:
  fixes g :: "int \<Rightarrow> real"
  assumes "p \<le> b"
  shows "sum g {p..b} = g p + sum g {p + 1..b}"
proof -
  have "{p..b} = insert p {p + 1..b}" using assms by auto
  moreover have "p \<notin> {p + 1..b}" by simp
  ultimately show ?thesis by simp
qed

lemma momentsOuter_step:
  assumes "p \<le> pow_2 QUADORDER"
  shows "momentsOuter fnc order ampl center width p hpoly result =
     momentsOuter fnc order ampl center width (p + 1)
       (hermiteArray (int order) (of_int p * (1 / of_int QUADORDER)) hpoly)
       (momentsInner order
          (M_SQRT2 * width / ampl / of_int QUADORDER
             * exp (- 0.5 * (of_int p * (1 / of_int QUADORDER)) * (of_int p * (1 / of_int QUADORDER))))
          (fnc (center + width * (of_int p * (1 / of_int QUADORDER))))
          (if p = 0 then 0 else fnc (center - width * (of_int p * (1 / of_int QUADORDER))))
          (hermiteArray (int order) (of_int p * (1 / of_int QUADORDER)) hpoly) 0 result)"
  by (subst momentsOuter.simps) (simp only: assms if_True Let_def)

lemma momentsOuter_exit:
  "\<not> p \<le> pow_2 QUADORDER \<Longrightarrow> momentsOuter fnc order ampl center width p hpoly result = result"
  by (subst momentsOuter.simps) simp

lemma momentsOuter_length:
  "length (momentsOuter fnc order ampl center width p hpoly result) = length result"
proof (induction fnc order ampl center width p hpoly result rule: momentsOuter.induct)
  case (1 fnc order ampl center width p hpoly result)
  show ?case
  proof (cases "p \<le> pow_2 QUADORDER")
    case True
    show ?thesis
      using "1.IH" [OF True refl refl refl refl refl refl]
      by (simp only: momentsOuter_step [OF True] momentsInner_length)
  next
    case False
    then show ?thesis by (simp add: momentsOuter_exit)
  qed
qed

lemma momentsOuter_nth:
  assumes "1 \<le> order" "k \<le> order" "length result = order + 1" "0 \<le> p"
  shows "momentsOuter fnc order ampl center width p hpoly result ! k
         = result ! k + (\<Sum>q = p..49. node_term fnc ampl center width q k)"
  using assms
proof (induction fnc order ampl center width p hpoly result rule: momentsOuter.induct)
  case (1 fnc order ampl center width p hpoly result)
  have q: "pow_2 QUADORDER = 49" by (simp add: pow_2_def QUADORDER_def)
  show ?case
  proof (cases "p \<le> 49")
    case True
    define y :: real where "y = of_int p * (1 / of_int QUADORDER)"
    define mult where "mult = M_SQRT2 * width / ampl / of_int QUADORDER * exp (- 0.5 * y * y)"
    define fp where "fp = fnc (center + width * y)"
    define fm where "fm = (if p = 0 then 0 else fnc (center - width * y))"
    define hp where "hp = hermiteArray (int order) y hpoly"
    define r where "r = momentsInner order mult fp fm hp 0 result"
    have T: "p \<le> pow_2 QUADORDER" using True q by simp
    have step: "momentsOuter fnc order ampl center width p hpoly result
                = momentsOuter fnc order ampl center width (p + 1) hp r"
      unfolding r_def hp_def fm_def fp_def mult_def y_def by (rule momentsOuter_step [OF T])
    have lenr: "length r = order + 1"
      using "1.prems"(3) by (simp add: r_def momentsInner_length)
    have ih: "momentsOuter fnc order ampl center width (p + 1) hp r ! k
              = r ! k + (\<Sum>q = p + 1..49. node_term fnc ampl center width q k)"
      using "1.IH" [OF T y_def mult_def fp_def fm_def hp_def r_def] "1.prems" lenr by simp
    have hk: "hp k = hermite_spec y k"
      using "1.prems"(1,2) by (simp add: hp_def hermiteArray_spec)
    have yv: "y = of_int p / 7" by (simp add: y_def QUADORDER_def)
    have "r ! k = result ! k + mult * (fp + (if k mod 2 \<noteq> 0 then - 1 else 1) * fm) * hp k"
      using "1.prems"(2,3) by (simp add: r_def momentsInner_nth)
    also have "mult * (fp + (if k mod 2 \<noteq> 0 then - 1 else 1) * fm) * hp k
               = node_term fnc ampl center width p k"
      by (simp add: node_term_def mult_def fp_def fm_def hk yv M_SQRT2_def QUADORDER_def
                    even_iff_mod_2_eq_zero)
    finally have rk: "r ! k = result ! k + node_term fnc ampl center width p k" .
    show ?thesis
      using step ih rk int_sum_head [OF True, of "\<lambda>q. node_term fnc ampl center width q k"]
      by simp
  next
    case False
    then have "{p..49} = {}" by simp
    then show ?thesis
      using False q by (simp add: momentsOuter_exit)
  qed
qed

lemma computeGaussHermiteMoments_length:
  "length (computeGaussHermiteMoments fnc order ampl center width) = order + 1"
  by (simp add: computeGaussHermiteMoments_def momentsOuter_length)

lemma computeGaussHermiteMoments_nth:
  assumes "1 \<le> order" "k \<le> order"
  shows "computeGaussHermiteMoments fnc order ampl center width ! k
         = (\<Sum>q = 0..49. node_term fnc ampl center width q k)"
proof -
  have z: "replicate (order + 1) (0::real) ! k = 0"
    using assms(2) nth_replicate [of k "order + 1" "0::real"] by linarith
  have "momentsOuter fnc order ampl center width 0 (\<lambda>i. 0) (replicate (order + 1) 0) ! k
        = replicate (order + 1) 0 ! k + (\<Sum>q = 0..49. node_term fnc ampl center width q k)"
    using assms by (intro momentsOuter_nth) simp_all
  then show ?thesis
    unfolding computeGaussHermiteMoments_def z by simp
qed

lemma hermite_spec_odd_at_0: "odd n \<Longrightarrow> hermite_spec 0 n = 0"
  by (induction "0::real" n rule: hermite_spec.induct) simp_all

lemma claimed_minus_code:
  assumes "1 \<le> order" "k \<le> order" "even k"
  shows "claimed_coefficient f ampl center width k
           - computeGaussHermiteMoments f order ampl center width ! k
         = sqrt 2 * width / ampl / 7 * f center * hermite_spec 0 k"
proof -
  have "claimed_coefficient f ampl center width k
           - computeGaussHermiteMoments f order ampl center width ! k
        = (\<Sum>p = 0..49::int.
             (if p = 0 then sqrt 2 * width / ampl / 7 * f center * hermite_spec 0 k else 0))"
    unfolding claimed_coefficient_def computeGaussHermiteMoments_nth [OF assms(1,2)]
              sum_subtractf [symmetric]
    using assms(3) by (intro sum.cong refl) (simp add: node_term_def algebra_simps)
  also have "\<dots> = sqrt 2 * width / ampl / 7 * f center * hermite_spec 0 k"
    by simp
  finally show ?thesis .
qed

declare momentsOuter_fl.simps [simp del]

lemma momentsOuter_fl_step:
  assumes "p \<le> pow_2 QUADORDER"
  shows "momentsOuter_fl fl fnc order ampl center width p hpoly result =
     momentsOuter_fl fl fnc order ampl center width (p + 1)
       (hermiteArray (int order) (fl (of_int p * fl (1 / of_int QUADORDER))) hpoly)
       (momentsInner order
          (M_SQRT2 * width / ampl / of_int QUADORDER
             * exp (- 0.5 * fl (of_int p * fl (1 / of_int QUADORDER))
                          * fl (of_int p * fl (1 / of_int QUADORDER))))
          (fnc (fl (center + fl (width * fl (of_int p * fl (1 / of_int QUADORDER))))))
          (if p = 0 then 0
           else fnc (fl (center - fl (width * fl (of_int p * fl (1 / of_int QUADORDER))))))
          (hermiteArray (int order) (fl (of_int p * fl (1 / of_int QUADORDER))) hpoly) 0 result)"
  by (subst momentsOuter_fl.simps) (simp only: assms if_True Let_def)

lemma momentsOuter_fl_exit:
  "\<not> p \<le> pow_2 QUADORDER \<Longrightarrow>
   momentsOuter_fl fl fnc order ampl center width p hpoly result = result"
  by (subst momentsOuter_fl.simps) simp

lemma momentsOuter_fl_length:
  "length (momentsOuter_fl fl fnc order ampl center width p hpoly result) = length result"
proof (induction fl fnc order ampl center width p hpoly result rule: momentsOuter_fl.induct)
  case (1 fl fnc order ampl center width p hpoly result)
  show ?case
  proof (cases "p \<le> pow_2 QUADORDER")
    case True
    show ?thesis
      using "1.IH" [OF True refl refl refl refl refl refl]
      by (simp only: momentsOuter_fl_step [OF True] momentsInner_length)
  next
    case False
    then show ?thesis by (simp add: momentsOuter_fl_exit)
  qed
qed

lemma momentsOuter_fl_nth:
  assumes "1 \<le> order" "k \<le> order" "length result = order + 1" "0 \<le> p"
  shows "momentsOuter_fl fl fnc order ampl center width p hpoly result ! k
         = result ! k + (\<Sum>q = p..49. node_term_fl fl fnc ampl center width q k)"
  using assms
proof (induction fl fnc order ampl center width p hpoly result rule: momentsOuter_fl.induct)
  case (1 fl fnc order ampl center width p hpoly result)
  have q: "pow_2 QUADORDER = 49" by (simp add: pow_2_def QUADORDER_def)
  show ?case
  proof (cases "p \<le> 49")
    case True
    define y :: real where "y = fl (of_int p * fl (1 / of_int QUADORDER))"
    define mult where "mult = M_SQRT2 * width / ampl / of_int QUADORDER * exp (- 0.5 * y * y)"
    define fp where "fp = fnc (fl (center + fl (width * y)))"
    define fm where "fm = (if p = 0 then 0 else fnc (fl (center - fl (width * y))))"
    define hp where "hp = hermiteArray (int order) y hpoly"
    define r where "r = momentsInner order mult fp fm hp 0 result"
    have T: "p \<le> pow_2 QUADORDER" using True q by simp
    have step: "momentsOuter_fl fl fnc order ampl center width p hpoly result
                = momentsOuter_fl fl fnc order ampl center width (p + 1) hp r"
      unfolding r_def hp_def fm_def fp_def mult_def y_def by (rule momentsOuter_fl_step [OF T])
    have lenr: "length r = order + 1"
      using "1.prems"(3) by (simp add: r_def momentsInner_length)
    have ih: "momentsOuter_fl fl fnc order ampl center width (p + 1) hp r ! k
              = r ! k + (\<Sum>q = p + 1..49. node_term_fl fl fnc ampl center width q k)"
      using "1.IH" [OF T y_def mult_def fp_def fm_def hp_def r_def] "1.prems" lenr by simp
    have hk: "hp k = hermite_spec y k"
      using "1.prems"(1,2) by (simp add: hp_def hermiteArray_spec)
    have yv: "y = node_y fl p" by (simp add: y_def node_y_def)
    have "r ! k = result ! k + mult * (fp + (if k mod 2 \<noteq> 0 then - 1 else 1) * fm) * hp k"
      using "1.prems"(2,3) by (simp add: r_def momentsInner_nth)
    also have "mult * (fp + (if k mod 2 \<noteq> 0 then - 1 else 1) * fm) * hp k
               = node_term_fl fl fnc ampl center width p k"
      unfolding node_term_fl_def sample_plus_def sample_minus_def yv [symmetric]
      by (simp add: mult_def fp_def fm_def hk M_SQRT2_def QUADORDER_def even_iff_mod_2_eq_zero)
    finally have rk: "r ! k = result ! k + node_term_fl fl fnc ampl center width p k" .
    show ?thesis
      using step ih rk int_sum_head [OF True, of "\<lambda>q. node_term_fl fl fnc ampl center width q k"]
      by simp
  next
    case False
    then have "{p..49} = {}" by simp
    then show ?thesis
      using False q by (simp add: momentsOuter_fl_exit)
  qed
qed

lemma computeGaussHermiteMoments_fl_length:
  "length (computeGaussHermiteMoments_fl fl fnc order ampl center width) = order + 1"
  by (simp add: computeGaussHermiteMoments_fl_def momentsOuter_fl_length)

lemma computeGaussHermiteMoments_fl_nth:
  assumes "1 \<le> order" "k \<le> order"
  shows "computeGaussHermiteMoments_fl fl fnc order ampl center width ! k
         = (\<Sum>q = 0..49. node_term_fl fl fnc ampl center width q k)"
proof -
  have z: "replicate (order + 1) (0::real) ! k = 0"
    using assms(2) nth_replicate [of k "order + 1" "0::real"] by linarith
  have "momentsOuter_fl fl fnc order ampl center width 0 (\<lambda>i. 0) (replicate (order + 1) 0) ! k
        = replicate (order + 1) 0 ! k + (\<Sum>q = 0..49. node_term_fl fl fnc ampl center width q k)"
    using assms by (intro momentsOuter_fl_nth) simp_all
  then show ?thesis
    unfolding computeGaussHermiteMoments_fl_def z by simp
qed

text \<open>Without rounding the loop is the one of exact arithmetic.\<close>

lemma momentsOuter_fl_exact:
  "momentsOuter_fl (\<lambda>x. x) fnc order ampl center width p hpoly result
   = momentsOuter fnc order ampl center width p hpoly result"
proof (induction fnc order ampl center width p hpoly result rule: momentsOuter.induct)
  case (1 fnc order ampl center width p hpoly result)
  show ?case
  proof (cases "p \<le> pow_2 QUADORDER")
    case True
    show ?thesis
      using "1.IH" [OF True refl refl refl refl refl refl]
      by (simp only: momentsOuter_fl_step [OF True] momentsOuter_step [OF True])
  next
    case False
    then show ?thesis by (simp add: momentsOuter_fl_exit momentsOuter_exit)
  qed
qed

lemma computeGaussHermiteMoments_fl_exact:
  "computeGaussHermiteMoments_fl (\<lambda>x. x) fnc order ampl center width
   = computeGaussHermiteMoments fnc order ampl center width"
  by (simp add: computeGaussHermiteMoments_fl_def computeGaussHermiteMoments_def
                momentsOuter_fl_exact)

lemma node_term_fl_sum_equal_samples_odd:
  assumes "\<forall>p \<in> {1..49}. f (sample_plus fl center width p) = f (sample_minus fl center width p)"
    and "odd k" "fl 0 = 0"
  shows "(\<Sum>q = 0..49. node_term_fl fl f ampl center width q k) = 0"
proof (rule sum.neutral, rule ballI)
  fix q :: int assume q: "q \<in> {0..49}"
  show "node_term_fl fl f ampl center width q k = 0"
  proof (cases "q = 0")
    case True
    then have "node_y fl q = 0" using assms(3) by (simp add: node_y_def)
    then show ?thesis
      using assms(2) by (simp add: node_term_fl_def hermite_spec_odd_at_0)
  next
    case False
    then have "q \<in> {1..49}" using q by auto
    then have "f (sample_plus fl center width q) = f (sample_minus fl center width q)"
      using assms(1) by blast
    then show ?thesis
      using False assms(2) by (simp add: node_term_fl_def)
  qed
qed

text \<open>The node 49 under binary64 rounding: \<open>49 * fl64 (1/7)\<close> is rounded to 7.\<close>

lemma node_y_49: "node_y fl64 49 = 7"
proof -
  have "rne (49 * (5146971002709138 / 2 ^ 55) / 2 powr (of_int 2 - 52)) = 7881299347898367 + 1"
    by (rule rne_up) (simp_all add: powr_neg_numeral)
  then have "fl64 (49 * (5146971002709138 / 2 ^ 55)) = 7"
    using fl64_eval [of 2 "49 * (5146971002709138 / 2 ^ 55)"] by (simp add: powr_neg_numeral)
  then show ?thesis
    by (simp add: node_y_def QUADORDER_def fl64_one_seventh)
qed

text \<open>
  Claim C4, as amended. At every node \<open>y = p/7\<close> with \<open>p > 0\<close> a coefficient of even index
  accumulates \<open>fp + fm\<close> and one of odd index \<open>fp - fm\<close>, where \<open>fp\<close> and \<open>fm\<close> are the values
  of the function at the two arguments \<open>center + width * y\<close> and \<open>center - width * y\<close> as
  they are computed; at the central node \<open>p = 0\<close> it accumulates \<open>f center\<close> alone. When the
  function returns the same value at the two computed arguments of every node, every
  coefficient of odd index is exactly zero. This holds for every rounding \<open>fl\<close> that keeps 0;
  the amplitude is nonzero, so that the quotient by it is a real number.
\<close>

theorem odd_coefficients_zero_on_equal_samples:
  assumes "i \<le> order" "ampl \<noteq> 0" "fl 0 = 0"
  shows "(1 \<le> order \<longrightarrow>
            computeGaussHermiteMoments_fl fl f order ampl center width ! i
            = (\<Sum>p = 0..49::int.
                 sqrt 2 * width / ampl / 7 * exp (- 0.5 * node_y fl p * node_y fl p)
                 * (f (sample_plus fl center width p)
                    + (if even i then 1 else - 1)
                      * (if p = 0 then 0 else f (sample_minus fl center width p)))
                 * hermite_spec (node_y fl p) i))
       \<and> ((\<forall>p \<in> {1..49}. f (sample_plus fl center width p) = f (sample_minus fl center width p))
           \<and> odd i \<longrightarrow>
            computeGaussHermiteMoments_fl fl f order ampl center width ! i = 0)"
proof (intro conjI impI)
  assume "1 \<le> order"
  then show "computeGaussHermiteMoments_fl fl f order ampl center width ! i
            = (\<Sum>p = 0..49::int.
                 sqrt 2 * width / ampl / 7 * exp (- 0.5 * node_y fl p * node_y fl p)
                 * (f (sample_plus fl center width p)
                    + (if even i then 1 else - 1)
                      * (if p = 0 then 0 else f (sample_minus fl center width p)))
                 * hermite_spec (node_y fl p) i)"
    using assms(1) by (simp only: computeGaussHermiteMoments_fl_nth node_term_fl_def)
next
  assume eq: "(\<forall>p \<in> {1..49}. f (sample_plus fl center width p) = f (sample_minus fl center width p))
              \<and> odd i"
  then have "1 \<le> order" using assms(1) by (cases order) auto
  then have "computeGaussHermiteMoments_fl fl f order ampl center width ! i
             = (\<Sum>q = 0..49. node_term_fl fl f ampl center width q i)"
    using assms(1) by (rule computeGaussHermiteMoments_fl_nth)
  also have "\<dots> = 0"
    using eq assms(3) by (intro node_term_fl_sum_equal_samples_odd) simp_all
  finally show "computeGaussHermiteMoments_fl fl f order ampl center width ! i = 0" .
qed

text \<open>
  With binary64 rounding and the centre 0 the two arguments are exact mirror images
  (\<open>fl64 (- x) = - fl64 x\<close>), so an even function has equal samples.
\<close>

theorem odd_coefficients_zero_on_equal_samples_witness:
  "(1::nat) \<le> 3 \<and> (1::real) \<noteq> 0 \<and> fl64 0 = 0 \<and> odd (1::nat)
   \<and> sample_plus fl64 0 1 49 = 7 \<and> sample_minus fl64 0 1 49 = - 7
   \<and> computeGaussHermiteMoments_fl fl64 (\<lambda>x. x * x) 3 1 0 1 ! 1 = 0
   \<and> computeGaussHermiteMoments_fl fl64 (\<lambda>x. x * x) 3 1 0 1 ! 1
       = (\<Sum>p = 0..49::int.
            sqrt 2 * 1 / 1 / 7 * exp (- 0.5 * node_y fl64 p * node_y fl64 p)
            * (sample_plus fl64 0 1 p * sample_plus fl64 0 1 p
               + (if even (1::nat) then 1 else - 1)
                 * (if p = 0 then 0 else sample_minus fl64 0 1 p * sample_minus fl64 0 1 p))
            * hermite_spec (node_y fl64 p) 1)"
proof -
  have h1: "(1::nat) \<le> 3" and h2: "(1::real) \<noteq> 0" and h3: "fl64 0 = 0"
    by (simp_all add: fl64_0)
  have eq: "\<forall>p \<in> {1..49}. (\<lambda>x::real. x * x) (sample_plus fl64 0 1 p)
                          = (\<lambda>x. x * x) (sample_minus fl64 0 1 p)"
    by (simp add: sample_plus_def sample_minus_def fl64_minus)
  note t = odd_coefficients_zero_on_equal_samples
            [where i = 1 and order = 3 and ampl = 1 and fl = fl64 and f = "\<lambda>x. x * x"
               and center = 0 and width = 1, OF h1 h2 h3]
  have a: "computeGaussHermiteMoments_fl fl64 (\<lambda>x. x * x) 3 1 0 1 ! 1 = 0"
    using t eq by simp
  have c: "computeGaussHermiteMoments_fl fl64 (\<lambda>x. x * x) 3 1 0 1 ! 1
       = (\<Sum>p = 0..49::int.
            sqrt 2 * 1 / 1 / 7 * exp (- 0.5 * node_y fl64 p * node_y fl64 p)
            * (sample_plus fl64 0 1 p * sample_plus fl64 0 1 p
               + (if even (1::nat) then 1 else - 1)
                 * (if p = 0 then 0 else sample_minus fl64 0 1 p * sample_minus fl64 0 1 p))
            * hermite_spec (node_y fl64 p) 1)"
    using conjunct1 [OF t] by simp
  have b: "sample_plus fl64 0 1 49 = 7" "sample_minus fl64 0 1 49 = - 7"
    by (simp_all add: sample_plus_def sample_minus_def node_y_49 fl64_seven fl64_minus)
  show ?thesis
    using h1 h2 h3 a b c by (intro conjI) simp_all
qed

text \<open>
  Binary64 rounding next to \<open>2^53\<close>: above it the doubles are the even integers, below it
  the integers.
\<close>

lemma fl64_above_2_53:
  assumes "0 \<le> t" "t < 1"
  shows "fl64 (9007199254740992 + t) = 9007199254740992"
proof -
  have "rne ((9007199254740992 + t) / 2 powr (of_int 53 - 52)) = 4503599627370496"
    using assms by (intro rne_down) simp_all
  moreover have "2 powr of_int 53 \<le> \<bar>9007199254740992 + t\<bar>" "\<bar>9007199254740992 + t\<bar> < 2 powr (of_int 53 + 1)"
    using assms by simp_all
  ultimately show ?thesis
    using fl64_eval [of 53 "9007199254740992 + t"] by simp
qed

lemma fl64_below_2_53:
  assumes "1 / 2 < t" "t \<le> 8"
  shows "fl64 (9007199254740992 - t) < 9007199254740992"
proof -
  have "2 powr of_int 52 \<le> \<bar>9007199254740992 - t\<bar>" "\<bar>9007199254740992 - t\<bar> < 2 powr (of_int 52 + 1)"
    using assms by simp_all
  then have "fl64 (9007199254740992 - t) = of_int (rne (9007199254740992 - t))"
    using fl64_eval [of 52 "9007199254740992 - t"] by simp
  moreover have "\<bar>of_int (rne (9007199254740992 - t)) - (9007199254740992 - t)\<bar> \<le> 1 / 2"
    by (rule rne_error)
  ultimately show ?thesis
    using assms by linarith
qed

lemma fl64_just_below_2_53:
  assumes "1 / 2 < t" "t < 1"
  shows "fl64 (9007199254740992 - t) = 9007199254740991"
proof -
  have "2 powr of_int 52 \<le> \<bar>9007199254740992 - t\<bar>" "\<bar>9007199254740992 - t\<bar> < 2 powr (of_int 52 + 1)"
    using assms by simp_all
  then have "fl64 (9007199254740992 - t) = of_int (rne (9007199254740992 - t))"
    using fl64_eval [of 52 "9007199254740992 - t"] by simp
  moreover have "rne (9007199254740992 - t) = 9007199254740991"
    using assms by (intro rne_down) simp_all
  ultimately show ?thesis by simp
qed

lemma fl64_pos:
  assumes "0 < x"
  shows "0 < fl64 x"
proof -
  have "\<bar>fl64 x - x\<bar> \<le> \<bar>x\<bar> / 2 ^ 53" by (rule fl64_error)
  moreover have "\<bar>x\<bar> / 2 ^ 53 < x" using assms by (simp add: field_simps)
  ultimately show ?thesis by linarith
qed

lemma fl64_keeps_range:
  assumes "0 \<le> x" "x \<le> b"
  shows "0 \<le> fl64 x \<and> fl64 x \<le> b + b / 2 ^ 53"
proof -
  have "\<bar>fl64 x - x\<bar> \<le> \<bar>x\<bar> / 2 ^ 53" by (rule fl64_error)
  moreover have "\<bar>x\<bar> / 2 ^ 53 \<le> x" using assms(1) by (simp add: field_simps)
  moreover have "\<bar>x\<bar> / 2 ^ 53 \<le> b / 2 ^ 53" using assms by (simp add: divide_right_mono)
  ultimately show ?thesis using assms by linarith
qed

lemma node_offsets:
  assumes "0 \<le> p" "p \<le> 49"
  shows "0 \<le> fl64 (1 * node_y fl64 p) \<and> fl64 (1 * node_y fl64 p) \<le> 8"
proof -
  define x :: real where "x = of_int p * (5146971002709138 / 2 ^ 55)"
  have p: "0 \<le> (of_int p :: real)" "(of_int p :: real) \<le> 49" using assms by simp_all
  have x0: "0 \<le> x" using p by (simp add: x_def)
  have "x \<le> 49 * (5146971002709138 / 2 ^ 55)"
    unfolding x_def using p by (intro mult_right_mono) simp_all
  then have x1: "x \<le> 7" by simp
  have y: "0 \<le> fl64 x" "fl64 x \<le> 7 + 7 / 2 ^ 53"
    using fl64_keeps_range [OF x0 x1] by simp_all
  then have y1: "fl64 x \<le> 71 / 10" by simp
  have "0 \<le> fl64 (fl64 x) \<and> fl64 (fl64 x) \<le> 71 / 10 + (71 / 10) / 2 ^ 53"
    using fl64_keeps_range [OF y(1) y1] .
  then have "0 \<le> fl64 (fl64 x) \<and> fl64 (fl64 x) \<le> 8" by simp
  then show ?thesis
    by (simp add: node_y_def QUADORDER_def fl64_one_seventh x_def)
qed

lemma node_offset_4:
  "1 / 2 < fl64 (1 * node_y fl64 4) \<and> fl64 (1 * node_y fl64 4) < 1"
proof -
  define x :: real where "x = 4 * (5146971002709138 / 2 ^ 55)"
  have x: "57 / 100 \<le> x" "x \<le> 58 / 100" by (simp_all add: x_def)
  have "\<bar>fl64 x - x\<bar> \<le> \<bar>x\<bar> / 2 ^ 53" by (rule fl64_error)
  moreover have "\<bar>x\<bar> / 2 ^ 53 \<le> 1 / 100" using x by simp
  ultimately have y: "56 / 100 \<le> fl64 x" "fl64 x \<le> 59 / 100" using x by linarith+
  have "\<bar>fl64 (fl64 x) - fl64 x\<bar> \<le> \<bar>fl64 x\<bar> / 2 ^ 53" by (rule fl64_error)
  moreover have "\<bar>fl64 x\<bar> / 2 ^ 53 \<le> 1 / 100" using y by simp
  ultimately have "55 / 100 \<le> fl64 (fl64 x)" "fl64 (fl64 x) \<le> 60 / 100" using y by linarith+
  then show ?thesis
    by (simp add: node_y_def QUADORDER_def fl64_one_seventh x_def)
qed

lemma samples_at_node_4:
  "sample_plus fl64 (2 ^ 53) 1 4 = 2 ^ 53 \<and> sample_minus fl64 (2 ^ 53) 1 4 = 2 ^ 53 - 1"
  using node_offset_4
  by (simp add: sample_plus_def sample_minus_def fl64_above_2_53 fl64_just_below_2_53)

lemma centre_indicator_terms:
  assumes "0 \<le> p" "p \<le> 49"
  shows "0 \<le> node_term_fl fl64 (\<lambda>x. if x = 2 ^ 53 then 1 else 0) 1 (2 ^ 53) 1 p 1"
proof -
  define f :: "real \<Rightarrow> real" where "f = (\<lambda>x. if x = 2 ^ 53 then 1 else 0)"
  define t where "t = fl64 (1 * node_y fl64 p)"
  have t: "0 \<le> t" "t \<le> 8" using node_offsets [OF assms] by (simp_all add: t_def)
  have y: "0 \<le> node_y fl64 p"
  proof -
    have "0 \<le> fl64 (of_int p * (5146971002709138 / 2 ^ 55))"
      using assms fl64_keeps_range [of "of_int p * (5146971002709138 / 2 ^ 55)" 7] by simp
    then show ?thesis by (simp add: node_y_def QUADORDER_def fl64_one_seventh)
  qed
  have diff: "0 \<le> f (fl64 (9007199254740992 + t))
                  - (if p = 0 then 0 else f (fl64 (9007199254740992 - t)))"
  proof (cases "t < 1")
    case True
    then have "fl64 (9007199254740992 + t) = 9007199254740992"
      using t by (intro fl64_above_2_53) simp_all
    then have "f (fl64 (9007199254740992 + t)) = 1" by (simp add: f_def)
    then show ?thesis by (simp add: f_def)
  next
    case False
    then have "fl64 (9007199254740992 - t) < 9007199254740992"
      using t by (intro fl64_below_2_53) simp_all
    then have "f (fl64 (9007199254740992 - t)) = 0" by (simp add: f_def)
    then show ?thesis by (simp add: f_def)
  qed
  have "node_term_fl fl64 f 1 (2 ^ 53) 1 p 1
        = sqrt 2 / 7 * exp (- 0.5 * node_y fl64 p * node_y fl64 p)
          * (f (fl64 (9007199254740992 + t))
             - (if p = 0 then 0 else f (fl64 (9007199254740992 - t))))
          * (sqrt 2 * node_y fl64 p)"
    by (simp add: node_term_fl_def sample_plus_def sample_minus_def t_def)
  also have "0 \<le> \<dots>"
    using diff y by (intro mult_nonneg_nonneg) simp_all
  finally show ?thesis by (simp add: f_def)
qed

lemma centre_indicator_term_4:
  "0 < node_term_fl fl64 (\<lambda>x. if x = 2 ^ 53 then 1 else 0) 1 (2 ^ 53) 1 4 1"
proof -
  have y: "0 < node_y fl64 4"
  proof -
    have "0 < fl64 (4 * (5146971002709138 / 2 ^ 55))" by (rule fl64_pos) simp
    then show ?thesis by (simp add: node_y_def QUADORDER_def fl64_one_seventh)
  qed
  have "node_term_fl fl64 (\<lambda>x. if x = 2 ^ 53 then 1 else 0) 1 (2 ^ 53) 1 4 1
        = sqrt 2 / 7 * exp (- 0.5 * node_y fl64 4 * node_y fl64 4) * (sqrt 2 * node_y fl64 4)"
    using samples_at_node_4 by (simp add: node_term_fl_def)
  also have "0 < \<dots>"
    using y by simp
  finally show ?thesis .
qed

lemma centre_indicator_coefficient:
  "0 < computeGaussHermiteMoments_fl fl64 (\<lambda>x. if x = 2 ^ 53 then 1 else 0) 1 1 (2 ^ 53) 1 ! 1"
proof -
  have "0 < (\<Sum>q = 0..49. node_term_fl fl64 (\<lambda>x. if x = 2 ^ 53 then 1 else 0) 1 (2 ^ 53) 1 q 1)"
  proof (rule sum_pos2 [where i = 4])
    show "0 < node_term_fl fl64 (\<lambda>x. if x = 2 ^ 53 then 1 else 0) 1 (2 ^ 53) 1 4 1"
      by (rule centre_indicator_term_4)
    show "0 \<le> node_term_fl fl64 (\<lambda>x. if x = 2 ^ 53 then 1 else 0) 1 (2 ^ 53) 1 q 1"
      if "q \<in> {0..49}" for q
      using that by (intro centre_indicator_terms) simp_all
  qed simp_all
  then show ?thesis
    by (simp add: computeGaussHermiteMoments_fl_nth)
qed

text \<open>
  Claim C4 as stated fails twice. At the central node the rule
  "\<open>f (center + width * y) + f (center - width * y)\<close> at every node" counts \<open>f center\<close> twice,
  the code once (the constant function 1, exact arithmetic). And symmetry of the function
  about the centre does not make the odd coefficients zero, because the two arguments are
  rounded each on its own. With the centre \<open>2^53\<close> and the width 1 the arguments at the node
  \<open>p = 4\<close> (\<open>y\<close> about 0.57) are \<open>2^53 + y\<close>, rounded to \<open>2^53\<close>, and \<open>2^53 - y\<close>, rounded to
  \<open>2^53 - 1\<close>. The function that is 1 at the centre and 0 elsewhere is symmetric about the
  centre; it is sampled as 1 and 0 there, no node subtracts more than it adds, and the
  coefficient of index 1 is positive.
\<close>

theorem accumulation_claim_fails:
  "claimed_coefficient (\<lambda>x. 1) 1 0 1 0 - computeGaussHermiteMoments (\<lambda>x. 1) 2 1 0 1 ! 0
     = sqrt 2 / 7
   \<and> computeGaussHermiteMoments (\<lambda>x. 1) 2 1 0 1 ! 0 \<noteq> claimed_coefficient (\<lambda>x. 1) 1 0 1 0
   \<and> (\<forall>t::real. (\<lambda>x. if x = 2 ^ 53 then 1 else (0::real)) (2 ^ 53 + t)
                 = (\<lambda>x. if x = 2 ^ 53 then 1 else 0) (2 ^ 53 - t))
   \<and> sample_plus fl64 (2 ^ 53) 1 4 = 2 ^ 53
   \<and> sample_minus fl64 (2 ^ 53) 1 4 = 2 ^ 53 - 1
   \<and> 0 < computeGaussHermiteMoments_fl fl64 (\<lambda>x. if x = 2 ^ 53 then 1 else 0) 1 1 (2 ^ 53) 1 ! 1
   \<and> computeGaussHermiteMoments_fl fl64 (\<lambda>x. if x = 2 ^ 53 then 1 else 0) 1 1 (2 ^ 53) 1 ! 1 \<noteq> 0"
proof -
  have d: "claimed_coefficient (\<lambda>x. 1) 1 0 1 0 - computeGaussHermiteMoments (\<lambda>x. 1) 2 1 0 1 ! 0
           = sqrt 2 / 7"
    using claimed_minus_code [of 2 0 "\<lambda>x. 1" 1 0 1] by simp
  have n: "computeGaussHermiteMoments (\<lambda>x. 1) 2 1 0 1 ! 0 \<noteq> claimed_coefficient (\<lambda>x. 1) 1 0 1 0"
  proof -
    have "sqrt 2 / 7 \<noteq> (0::real)" by simp
    with d show ?thesis by auto
  qed
  have s: "\<forall>t::real. (\<lambda>x. if x = 2 ^ 53 then 1 else (0::real)) (2 ^ 53 + t)
                     = (\<lambda>x. if x = 2 ^ 53 then 1 else 0) (2 ^ 53 - t)"
    by simp
  have a: "sample_plus fl64 (2 ^ 53) 1 4 = 2 ^ 53" "sample_minus fl64 (2 ^ 53) 1 4 = 2 ^ 53 - 1"
    using samples_at_node_4 by simp_all
  have p: "0 < computeGaussHermiteMoments_fl fl64 (\<lambda>x. if x = 2 ^ 53 then 1 else 0) 1 1 (2 ^ 53) 1 ! 1"
    by (rule centre_indicator_coefficient)
  then have z: "computeGaussHermiteMoments_fl fl64 (\<lambda>x. if x = 2 ^ 53 then 1 else 0) 1 1 (2 ^ 53) 1 ! 1
                \<noteq> 0"
    by simp
  show ?thesis
    using d n s a p z by (intro conjI)
qed

lemma isFinite_sum:
  "isFinite (dadd (dadd a c) w) \<Longrightarrow> isFinite a \<and> isFinite c \<and> isFinite w"
  by (cases a; cases c; cases w) (simp_all add: Let_def split: if_splits)

lemma constructed_moments:
  assumes "GaussHermiteExpansion_new integrateNdim nonlinearMultiFit fnc order ampl center width
           = (stages, Inr e)"
  shows "2 \<le> order
         \<and> moments e = computeGaussHermiteMoments fnc order (Ampl e) (Center e) (Width e)"
proof (cases "order < 2")
  case True
  then show ?thesis
    using assms by (simp add: GaussHermiteExpansion_new_def)
next
  case False
  show ?thesis
  proof (cases "isFinite (dadd (dadd ampl center) width)")
    case True
    then show ?thesis
      using assms False by (auto simp add: GaussHermiteExpansion_new_def Let_def)
  next
    case fit: False
    show ?thesis
    proof (cases "computeClassicMoments integrateNdim fnc")
      case None
      then show ?thesis
        using assms False fit by (simp add: GaussHermiteExpansion_new_def)
    next
      case (Some params0)
      then show ?thesis
        using assms False fit by (auto simp add: GaussHermiteExpansion_new_def Let_def)
    qed
  qed
qed

text \<open>
  Claim C1, as amended. Every constructed expansion has \<open>order + 1\<close> coefficients, and
  \<open>coefficients[0]\<close> is the quadrature sum of the function against the envelope: it is not
  forced to 1. (The amplitude is nonzero, so that the quotient by it is a real number.)
\<close>

theorem first_coefficient_is_quadrature_sum:
  assumes "GaussHermiteExpansion_new integrateNdim nonlinearMultiFit fnc order ampl center width
           = (stages, Inr e)"
    and "Ampl e \<noteq> 0"
  shows "length (moments e) = order + 1
       \<and> moments e ! 0
         = (\<Sum>p = 0..49::int.
              sqrt 2 * Width e / Ampl e / 7 * exp (- 0.5 * (of_int p / 7) * (of_int p / 7))
              * (fnc (Center e + Width e * (of_int p / 7))
                 + (if p = 0 then 0 else fnc (Center e - Width e * (of_int p / 7)))))"
proof -
  have o: "2 \<le> order"
    and m: "moments e = computeGaussHermiteMoments fnc order (Ampl e) (Center e) (Width e)"
    using constructed_moments [OF assms(1)] by simp_all
  have "moments e ! 0 = (\<Sum>q = 0..49. node_term fnc (Ampl e) (Center e) (Width e) q 0)"
    unfolding m using o by (intro computeGaussHermiteMoments_nth) simp_all
  then show ?thesis
    by (simp add: m computeGaussHermiteMoments_length node_term_def)
qed

theorem first_coefficient_is_quadrature_sum_witness:
  "GaussHermiteExpansion_new (\<lambda>f a b eps n. (1, 0, 1)) (\<lambda>f nv nq init acc n. init) (\<lambda>x. 1) 2
      (Finite 1) (Finite 0) (Finite 1)
   = ([CoefficientIntegration],
      Inr \<lparr>Ampl = 1, Center = 0, Width = 1,
           moments = computeGaussHermiteMoments (\<lambda>x. 1) 2 1 0 1\<rparr>)
   \<and> (1::real) \<noteq> 0
   \<and> length (computeGaussHermiteMoments (\<lambda>x. 1) 2 1 0 1) = 3
   \<and> computeGaussHermiteMoments (\<lambda>x. 1) 2 1 0 1 ! 0
      = (\<Sum>p = 0..49::int.
           sqrt 2 * 1 / 1 / 7 * exp (- 0.5 * (of_int p / 7) * (of_int p / 7))
           * (1 + (if p = 0 then 0 else 1)))"
proof -
  have c: "GaussHermiteExpansion_new (\<lambda>f a b eps n. (1, 0, 1)) (\<lambda>f nv nq init acc n. init)
             (\<lambda>x. 1) 2 (Finite 1) (Finite 0) (Finite 1)
           = ([CoefficientIntegration],
              Inr \<lparr>Ampl = 1, Center = 0, Width = 1,
                   moments = computeGaussHermiteMoments (\<lambda>x. 1) 2 1 0 1\<rparr>)"
    using unit_envelope_is_finite
    by (simp add: GaussHermiteExpansion_new_def del: dadd.simps)
  have a: "Ampl \<lparr>Ampl = 1, Center = 0, Width = 1,
                  moments = computeGaussHermiteMoments (\<lambda>x. 1) 2 1 0 1\<rparr> \<noteq> 0"
    by simp
  show ?thesis
    using c first_coefficient_is_quadrature_sum [OF c a] by simp
qed

lemma moments_of_zero_function:
  "computeGaussHermiteMoments (\<lambda>x. 0) 2 ampl center width = [0, 0, 0]"
proof (rule nth_equalityI)
  show "length (computeGaussHermiteMoments (\<lambda>x. 0) 2 ampl center width) = length [0, 0, 0::real]"
    by (simp add: computeGaussHermiteMoments_length)
next
  fix i assume "i < length (computeGaussHermiteMoments (\<lambda>x. 0) 2 ampl center width)"
  then have i: "i \<le> 2" by (simp add: computeGaussHermiteMoments_length)
  then have "computeGaussHermiteMoments (\<lambda>x. 0) 2 ampl center width ! i = 0"
    by (simp add: computeGaussHermiteMoments_nth node_term_def)
  moreover have "[0, 0, 0::real] ! i = 0"
    using i by (cases i) (auto simp add: nth_Cons split: nat.splits)
  ultimately show "computeGaussHermiteMoments (\<lambda>x. 0) 2 ampl center width ! i = [0, 0, 0] ! i"
    by simp
qed

text \<open>
  Claim C1 as stated fails: the expansion of the zero function with the envelope
  \<open>(1, 0, 1)\<close> has \<open>coefficients[0] = 0\<close>.
\<close>

theorem zero_function_first_coefficient:
  "GaussHermiteExpansion_new (\<lambda>f a b eps n. (0, 0, 0)) (\<lambda>f nv nq init acc n. init) (\<lambda>x. 0) 2
      (Finite 1) (Finite 0) (Finite 1)
   = ([CoefficientIntegration],
      Inr \<lparr>Ampl = 1, Center = 0, Width = 1, moments = [0, 0, 0]\<rparr>)
   \<and> [0, 0, 0::real] ! 0 \<noteq> 1"
  using unit_envelope_is_finite
  by (simp add: GaussHermiteExpansion_new_def moments_of_zero_function del: dadd.simps)

subsection \<open>The model fitted by Levenberg-Marquardt\<close>

declare fitterSum.simps [simp del]
declare valueLoop.simps [simp del]
declare evalDerivLoop.simps [simp del]

lemma fitterSum_sum:
  "fitterSum order vars hpoly n s = s + (\<Sum>j = n..order. vars j * hpoly j)"
proof (induction order vars hpoly n s rule: fitterSum.induct)
  case (1 order vars hpoly n s)
  show ?case
  proof (cases "n \<le> order")
    case True
    have "fitterSum order vars hpoly n s = fitterSum order vars hpoly (n + 1) (s + vars n * hpoly n)"
      using True by (subst fitterSum.simps) simp
    also have "\<dots> = s + vars n * hpoly n + (\<Sum>j = n + 1..order. vars j * hpoly j)"
      using "1.IH" [OF True] by simp
    also have "\<dots> = s + (\<Sum>j = n..order. vars j * hpoly j)"
      using True by (simp add: sum.atLeast_Suc_atMost)
    finally show ?thesis .
  next
    case False
    then show ?thesis by (subst fitterSum.simps) simp
  qed
qed

lemma fitterSum_hermite:
  "fitterSum order vars (hermiteArray (int order) y hpoly) 3 1 = fitter_sum order vars y"
proof -
  have "(\<Sum>j = 3..order. vars j * hermiteArray (int order) y hpoly j)
        = (\<Sum>j = 3..order. vars j * hermite_spec y j)"
  proof (rule sum.cong [OF refl])
    fix j assume "j \<in> {3..order}"
    then have "1 \<le> int order" "j \<le> nat (int order)" by auto
    then show "vars j * hermiteArray (int order) y hpoly j = vars j * hermite_spec y j"
      by (simp add: hermiteArray_spec)
  qed
  then show ?thesis
    by (simp add: fitterSum_sum fitter_sum_def)
qed

lemma valueLoop_sum:
  "valueLoop ms hpoly i r = r + (\<Sum>j = i..<length ms. ms ! j * hpoly j)"
proof (induction ms hpoly i r rule: valueLoop.induct)
  case (1 ms hpoly i r)
  show ?case
  proof (cases "i < length ms")
    case True
    have "valueLoop ms hpoly i r = valueLoop ms hpoly (i + 1) (r + ms ! i * hpoly i)"
      using True by (subst valueLoop.simps) simp
    also have "\<dots> = r + ms ! i * hpoly i + (\<Sum>j = i + 1..<length ms. ms ! j * hpoly j)"
      using "1.IH" [OF True] by simp
    also have "\<dots> = r + (\<Sum>j = i..<length ms. ms ! j * hpoly j)"
      using True by (simp add: sum.atLeast_Suc_lessThan)
    finally show ?thesis .
  next
    case False
    then show ?thesis by (subst valueLoop.simps) simp
  qed
qed

lemma evalDerivLoop_step:
  assumes "p \<le> 2 * pow_2 QUADORDER"
  shows "evalDerivLoop order fnc vars p hpoly (Some v) None =
     evalDerivLoop order fnc vars (p + 1)
       (hermiteArray (int order) ((1 / of_int QUADORDER) * of_int (p - pow_2 QUADORDER)) hpoly)
       (Some (v(nat p :=
          sqrt (vars 2) * fnc (vars 1 + vars 2 * ((1 / of_int QUADORDER) * of_int (p - pow_2 QUADORDER)))
          - 1 / M_SQRT2 / M_SQRTPI
            * exp (- 0.5 * ((1 / of_int QUADORDER) * of_int (p - pow_2 QUADORDER))
                         * ((1 / of_int QUADORDER) * of_int (p - pow_2 QUADORDER)))
            * fitterSum order vars
                (hermiteArray (int order) ((1 / of_int QUADORDER) * of_int (p - pow_2 QUADORDER)) hpoly)
                3 1
            / sqrt (vars 2) * vars 0)))
       None"
  by (subst evalDerivLoop.simps) (simp only: assms if_True Let_def option.case)

lemma evalDerivLoop_exit:
  "\<not> p \<le> 2 * pow_2 QUADORDER \<Longrightarrow>
   evalDerivLoop order fnc vars p hpoly values derivs = (values, derivs)"
  by (subst evalDerivLoop.simps) simp

lemma fitter_step_value:
  assumes "0 \<le> p"
  shows "sqrt (vars 2) * fnc (vars 1 + vars 2 * ((1 / of_int QUADORDER) * of_int (p - pow_2 QUADORDER)))
          - 1 / M_SQRT2 / M_SQRTPI
            * exp (- 0.5 * ((1 / of_int QUADORDER) * of_int (p - pow_2 QUADORDER))
                         * ((1 / of_int QUADORDER) * of_int (p - pow_2 QUADORDER)))
            * fitterSum order vars
                (hermiteArray (int order) ((1 / of_int QUADORDER) * of_int (p - pow_2 QUADORDER)) hpoly)
                3 1
            / sqrt (vars 2) * vars 0
         = fitter_residual order fnc vars (nat p)"
proof -
  have y: "(1 / of_int QUADORDER) * of_int (p - pow_2 QUADORDER) = (real (nat p) - 49) / 7"
    using assms by (simp add: QUADORDER_def pow_2_def)
  show ?thesis
    unfolding y fitterSum_hermite fitter_residual_def fitter_node_def M_SQRT2_def M_SQRTPI_def
    by (rule refl)
qed

lemma evalDerivLoop_values:
  assumes "0 \<le> p" "nat (99 - p) = n"
  shows "evalDerivLoop order fnc vars p hpoly (Some v) None
         = (Some (\<lambda>k. if p \<le> int k \<and> k \<le> 98 then fitter_residual order fnc vars k else v k),
            None)"
  using assms
proof (induction n arbitrary: p hpoly v)
  case 0
  then have big: "98 < p" by simp
  then have "\<not> p \<le> 2 * pow_2 QUADORDER" by (simp add: QUADORDER_def pow_2_def)
  moreover have "(\<lambda>k. if p \<le> int k \<and> k \<le> 98 then fitter_residual order fnc vars k else v k) = v"
    using big by (intro ext) auto
  ultimately show ?case
    by (simp add: evalDerivLoop_exit)
next
  case (Suc n)
  then have small: "p \<le> 98" by simp
  then have T: "p \<le> 2 * pow_2 QUADORDER" by (simp add: QUADORDER_def pow_2_def)
  define hp where
    "hp = hermiteArray (int order) ((1 / of_int QUADORDER) * of_int (p - pow_2 QUADORDER)) hpoly"
  have step: "evalDerivLoop order fnc vars p hpoly (Some v) None
              = evalDerivLoop order fnc vars (p + 1) hp
                  (Some (v(nat p := fitter_residual order fnc vars (nat p)))) None"
    unfolding hp_def
    by (simp only: evalDerivLoop_step [OF T] fitter_step_value [OF Suc.prems(1)])
  have ih: "evalDerivLoop order fnc vars (p + 1) hp
              (Some (v(nat p := fitter_residual order fnc vars (nat p)))) None
            = (Some (\<lambda>k. if p + 1 \<le> int k \<and> k \<le> 98 then fitter_residual order fnc vars k
                          else (v(nat p := fitter_residual order fnc vars (nat p))) k), None)"
    using Suc.prems by (intro Suc.IH) simp_all
  have "(\<lambda>k. if p + 1 \<le> int k \<and> k \<le> 98 then fitter_residual order fnc vars k
              else (v(nat p := fitter_residual order fnc vars (nat p))) k)
        = (\<lambda>k. if p \<le> int k \<and> k \<le> 98 then fitter_residual order fnc vars k else v k)"
  proof (rule ext)
    fix k
    show "(if p + 1 \<le> int k \<and> k \<le> 98 then fitter_residual order fnc vars k
           else (v(nat p := fitter_residual order fnc vars (nat p))) k)
          = (if p \<le> int k \<and> k \<le> 98 then fitter_residual order fnc vars k else v k)"
    proof (cases "k = nat p")
      case True
      moreover have "nat p \<le> 98" "p \<le> int (nat p)" "\<not> p + 1 \<le> int (nat p)"
        using Suc.prems(1) small by linarith+
      ultimately show ?thesis by simp
    next
      case False
      then have "(p + 1 \<le> int k) = (p \<le> int k)" using Suc.prems(1) by linarith
      then show ?thesis using False by simp
    qed
  qed
  then show ?case
    using step ih by simp
qed

lemma residuals_closed:
  "residuals order fnc vars values0 k
   = (if k \<le> 98 then fitter_residual order fnc vars k else values0 k)"
  using evalDerivLoop_values [of 0 99 order fnc vars "\<lambda>i. 0" values0]
  by (simp add: residuals_def evalDeriv_def)

lemma fitted_value:
  assumes "2 \<le> order" "vars 2 \<noteq> 0"
  shows "GaussHermiteExpansion_value (fitted_expansion order vars) stack x
         = fitter_sum order vars ((x - vars 1) / vars 2)
           * (1 / sqrt 2 / sqrt pi * vars 0 / vars 2
              * exp (- 0.5 * (((x - vars 1) / vars 2) * ((x - vars 1) / vars 2))))"
proof -
  define xs where "xs = (x - vars 1) / vars 2"
  define ms where "ms = map (\<lambda>n. if n = 0 then 1 else if n < 3 then 0 else vars n) [0..<order + 1]"
  define hp where "hp = hermiteArray (int (order + 1) - 1) xs stack"
  have len: "length ms = order + 1" by (simp add: ms_def)
  have hpj: "hp j = hermite_spec xs j" if "j \<le> order" for j
    using that assms(1) by (simp add: hp_def hermiteArray_spec)
  have tm: "ms ! j * hp j
              = (if j = 0 then 1 else 0) + (if 3 \<le> j then vars j * hermite_spec xs j else 0)"
    if "j \<in> {0..<order + 1}" for j
  proof -
    have j: "j < order + 1" using that by simp
    then have "ms ! j = (if j = 0 then 1 else if j < 3 then 0 else vars j)"
      unfolding ms_def by (subst nth_map) (simp_all del: upt_Suc)
    then show ?thesis
      using hpj [of j] j by auto
  qed
  have "valueLoop ms hp 0 0 = (\<Sum>j = 0..<order + 1. ms ! j * hp j)"
    by (simp add: valueLoop_sum len)
  also have "\<dots> = (\<Sum>j = 0..<order + 1.
                      (if j = 0 then 1 else 0) + (if 3 \<le> j then vars j * hermite_spec xs j else 0))"
    using tm by (intro sum.cong refl) blast
  also have "\<dots> = (\<Sum>j = 0..<order + 1. (if j = 0 then 1 else 0))
                  + (\<Sum>j = 0..<order + 1. (if 3 \<le> j then vars j * hermite_spec xs j else 0))"
    by (rule sum.distrib)
  also have "(\<Sum>j = 0..<order + 1. (if j = 0 then 1 else 0)) = (1::real)"
    by simp
  also have "(\<Sum>j = 0..<order + 1. (if 3 \<le> j then vars j * hermite_spec xs j else 0))
             = (\<Sum>j = 3..order. (if 3 \<le> j then vars j * hermite_spec xs j else 0))"
    by (rule sum.mono_neutral_right) auto
  also have "\<dots> = (\<Sum>j = 3..order. vars j * hermite_spec xs j)"
    by (intro sum.cong refl) simp
  finally have loop: "valueLoop ms hp 0 0 = fitter_sum order vars xs"
    by (simp add: fitter_sum_def)
  have "GaussHermiteExpansion_value (fitted_expansion order vars) stack x
        = valueLoop ms hp 0 0
          * ((1 / M_SQRT2 / M_SQRTPI) * vars 0 / vars 2 * exp (- 0.5 * pow_2 xs))"
    by (simp add: GaussHermiteExpansion_value_def fitted_expansion_def Let_def
                  ms_def hp_def xs_def del: upt_Suc)
  then show ?thesis
    by (simp add: loop xs_def M_SQRT2_def M_SQRTPI_def pow_2_def)
qed

text \<open>
  Claim C5, as amended. The model has \<open>order + 1\<close> free parameters and 99 residuals, and
  for a positive width the residual at the node \<open>x_k\<close> is \<open>sqrt width\<close> times the difference
  of \<open>f x_k\<close> and the value at \<open>x_k\<close> of the expansion with \<open>h_0 = 1\<close>, \<open>h_1 = h_2 = 0\<close>
  and \<open>h_3..h_order\<close> from the free parameters: both terms carry the factor \<open>sqrt width\<close>.
\<close>

theorem fitter_residual_scaled_difference:
  assumes "2 \<le> order" "0 < vars 2" "k < 99"
  shows "GaussHermiteFitter_numVars order = order + 1
       \<and> GaussHermiteFitter_numValues = 99
       \<and> residuals order fnc vars vals k
         = sqrt (vars 2)
           * (fnc (fitter_node vars k)
              - GaussHermiteExpansion_value (fitted_expansion order vars) stack (fitter_node vars k))"
proof (intro conjI)
  show "GaussHermiteFitter_numVars order = order + 1"
    by (simp add: GaussHermiteFitter_numVars_def)
  show "GaussHermiteFitter_numValues = 99"
    by (simp add: GaussHermiteFitter_numValues_def pow_2_def QUADORDER_def)
  define w where "w = vars 2"
  define y :: real where "y = (real k - 49) / 7"
  have w: "0 < w" "w \<noteq> 0" using assms(2) by (simp_all add: w_def)
  have nz: "vars 2 \<noteq> 0" using assms(2) by simp
  have sw: "0 < sqrt w" "sqrt w * sqrt w = w" using w by simp_all
  have xs: "(fitter_node vars k - vars 1) / vars 2 = y"
    using w by (simp add: fitter_node_def y_def w_def)
  have v: "GaussHermiteExpansion_value (fitted_expansion order vars) stack (fitter_node vars k)
           = fitter_sum order vars y * (1 / sqrt 2 / sqrt pi * vars 0 / w * exp (- 0.5 * (y * y)))"
    using fitted_value [where order = order and vars = vars and stack = stack
                          and x = "fitter_node vars k", OF assms(1) nz]
    by (simp only: xs w_def)
  have ratio: "sqrt w / w = 1 / sqrt w"
    using sw by (simp add: field_simps)
  have "residuals order fnc vars vals k = fitter_residual order fnc vars k"
    using assms(3) by (simp add: residuals_closed)
  also have "\<dots> = sqrt w * fnc (fitter_node vars k)
                  - fitter_sum order vars y * (1 / sqrt 2 / sqrt pi * vars 0 * exp (- 0.5 * (y * y)))
                    * (1 / sqrt w)"
    by (simp add: fitter_residual_def y_def w_def)
  also have "\<dots> = sqrt w * fnc (fitter_node vars k)
                  - fitter_sum order vars y * (1 / sqrt 2 / sqrt pi * vars 0 * exp (- 0.5 * (y * y)))
                    * (sqrt w / w)"
    by (simp only: ratio)
  also have "\<dots> = sqrt w
                  * (fnc (fitter_node vars k)
                     - fitter_sum order vars y
                       * (1 / sqrt 2 / sqrt pi * vars 0 / w * exp (- 0.5 * (y * y))))"
    by (simp add: algebra_simps)
  finally show "residuals order fnc vars vals k
         = sqrt (vars 2)
           * (fnc (fitter_node vars k)
              - GaussHermiteExpansion_value (fitted_expansion order vars) stack (fitter_node vars k))"
    by (simp only: v w_def)
qed

theorem fitter_residual_scaled_difference_witness:
  "(2::nat) \<le> 2 \<and> (0::real) < [1, 0, 4] ! 2 \<and> (49::nat) < 99
   \<and> GaussHermiteFitter_numVars 2 = 3
   \<and> GaussHermiteFitter_numValues = 99
   \<and> residuals 2 (\<lambda>x. 1) (\<lambda>i. [1, 0, 4] ! i) (\<lambda>i. 0) 49
      = sqrt 4 * (1 - GaussHermiteExpansion_value (fitted_expansion 2 (\<lambda>i. [1, 0, 4] ! i)) (\<lambda>i. 0)
                         (fitter_node (\<lambda>i. [1, 0, 4] ! i) 49))"
proof -
  have h1: "(2::nat) \<le> 2" and h2: "(0::real) < (\<lambda>i. [1, 0, 4] ! i) 2" and h3: "(49::nat) < 99"
    by simp_all
  show ?thesis
    using h1 h2 h3
      fitter_residual_scaled_difference
        [where order = 2 and vars = "\<lambda>i. [1, 0, 4] ! i" and k = 49 and fnc = "\<lambda>x. 1"
           and vals = "\<lambda>i. 0" and stack = "\<lambda>i. 0"]
    by simp
qed

text \<open>
  Claim C5 as stated fails for a width other than 1: with the envelope \<open>(1, 0, 4)\<close> and
  the zero function the residual at the central node is \<open>- 1 / (2 * sqrt (2 * pi))\<close>, while
  \<open>sqrt width * f x_k\<close> minus the reconstructed value is \<open>- 1 / (4 * sqrt (2 * pi))\<close>.
\<close>

theorem residual_is_not_unscaled_difference:
  "residuals 2 (\<lambda>x. 0) (\<lambda>i. [1, 0, 4] ! i) (\<lambda>i. 0) 49 = - 1 / (2 * (sqrt 2 * sqrt pi))
   \<and> claimed_residual 2 (\<lambda>x. 0) (\<lambda>i. [1, 0, 4] ! i) 49 = - 1 / (4 * (sqrt 2 * sqrt pi))
   \<and> residuals 2 (\<lambda>x. 0) (\<lambda>i. [1, 0, 4] ! i) (\<lambda>i. 0) 49
       \<noteq> claimed_residual 2 (\<lambda>x. 0) (\<lambda>i. [1, 0, 4] ! i) 49"
proof -
  have node: "fitter_node (\<lambda>i. [1, 0, 4] ! i) 49 = 0"
    by (simp add: fitter_node_def)
  have s: "fitter_sum 2 (\<lambda>i. [1, 0, 4] ! i) 0 = 1"
    by (simp add: fitter_sum_def)
  have a: "residuals 2 (\<lambda>x. 0) (\<lambda>i. [1, 0, 4] ! i) (\<lambda>i. 0) 49 = - 1 / (2 * (sqrt 2 * sqrt pi))"
    by (simp add: residuals_closed fitter_residual_def s)
  have "GaussHermiteExpansion_value (fitted_expansion 2 (\<lambda>i. [1, 0, 4] ! i)) (\<lambda>i. 0) 0
        = 1 / (4 * (sqrt 2 * sqrt pi))"
    using fitted_value [of 2 "\<lambda>i. [1, 0, 4] ! i" "\<lambda>i. 0" 0] by (simp add: s)
  then have b: "claimed_residual 2 (\<lambda>x. 0) (\<lambda>i. [1, 0, 4] ! i) 49 = - 1 / (4 * (sqrt 2 * sqrt pi))"
    by (simp add: claimed_residual_def node)
  have pos: "0 < sqrt 2 * sqrt pi" by simp
  have "- 1 / (2 * (sqrt 2 * sqrt pi)) \<noteq> - 1 / (4 * (sqrt 2 * sqrt pi))"
    using pos by (simp add: field_simps)
  then show ?thesis
    using a b by simp
qed

end
